theory Spec2Isabelle
  imports Complex_Main "HOL-Library.Word"
begin

section \<open>The UCI option registry and the tuning framework of ucioption.cpp\<close>

text \<open>
  A shallow embedding of \<^verbatim>\<open>src/ucioption.cpp\<close>. The C++ type \<^verbatim>\<open>int\<close> is
  modelled by \<^typ>\<open>int\<close> (no arithmetic of the file on option bounds can overflow: they
  are only stored, compared and printed), \<^verbatim>\<open>size_t\<close> counters by \<^typ>\<open>nat\<close>,
  \<^verbatim>\<open>std::string\<close> by \<^typ>\<open>string\<close>. A C++ exception, a failed \<^verbatim>\<open>assert\<close> and
  undefined behaviour are values of the type \<open>error\<close>; a function that can raise
  returns \<open>error + 'a\<close>.
\<close>

datatype error =
    invalid_argument      \<comment> \<open>\<^verbatim>\<open>std::invalid_argument\<close>, thrown by \<^verbatim>\<open>std::stof\<close>\<close>
  | out_of_range          \<comment> \<open>\<^verbatim>\<open>std::out_of_range\<close>, thrown by \<^verbatim>\<open>std::stof\<close>\<close>
  | assertion_failed      \<comment> \<open>a failed \<^verbatim>\<open>assert\<close>\<close>
  | undefined_behaviour   \<comment> \<open>out-of-range conversion or index, division by zero\<close>

subsection \<open>Characters\<close>

text \<open>The classification functions of \<^verbatim>\<open><cctype>\<close> in the "C" locale.\<close>

definition isspace :: "char \<Rightarrow> bool" where
  "isspace c = ((of_char c :: nat) = 32 \<or> (9 \<le> (of_char c :: nat) \<and> (of_char c :: nat) \<le> 13))"

definition isdigit :: "char \<Rightarrow> bool" where
  "isdigit c = (48 \<le> (of_char c :: nat) \<and> (of_char c :: nat) \<le> 57)"

definition isxdigit :: "char \<Rightarrow> bool" where
  "isxdigit c = (isdigit c
     \<or> (65 \<le> (of_char c :: nat) \<and> (of_char c :: nat) \<le> 70)
     \<or> (97 \<le> (of_char c :: nat) \<and> (of_char c :: nat) \<le> 102))"

text \<open>
  A \<^verbatim>\<open>char\<close> passed to \<^verbatim>\<open>tolower(int)\<close> is promoted to \<^verbatim>\<open>int\<close>; with a signed
  \<^verbatim>\<open>char\<close> the bytes from 128 on are negative. \<^verbatim>\<open>tolower\<close> maps \<^verbatim>\<open>'A'..'Z'\<close> to
  \<^verbatim>\<open>'a'..'z'\<close> and returns every other value unchanged.
\<close>

definition char_to_int :: "char \<Rightarrow> int" where
  "char_to_int c = (let n = (of_char c :: int) in if 128 \<le> n then n - 256 else n)"

definition tolower :: "int \<Rightarrow> int" where
  "tolower i = (if 65 \<le> i \<and> i \<le> 90 then i + 32 else i)"

subsection \<open>Single-precision numbers and \<^verbatim>\<open>std::stof\<close>\<close>

text \<open>
  \<^verbatim>\<open>std::stof\<close> returns a \<^verbatim>\<open>float\<close>. A \<^verbatim>\<open>float\<close> is modelled by its exact value:
  a rational, an infinity or NaN. Only comparison and conversion are used by the
  file, so the sign of a zero is not kept.
\<close>

datatype flt = Finite rat | PInf | NInf | NaN

text \<open>The comparison \<^verbatim>\<open><\<close> of IEEE 754: false whenever an operand is NaN.\<close>

fun flt_less :: "flt \<Rightarrow> flt \<Rightarrow> bool" where
  "flt_less NaN y = False"
| "flt_less x NaN = False"
| "flt_less (Finite a) (Finite b) = (a < b)"
| "flt_less (Finite a) PInf = True"
| "flt_less NInf (Finite b) = True"
| "flt_less NInf PInf = True"
| "flt_less x y = False"

text \<open>The comparison \<^verbatim>\<open><=\<close> of IEEE 754, in which the properties below are stated.\<close>

fun flt_le :: "flt \<Rightarrow> flt \<Rightarrow> bool" where
  "flt_le NaN y = False"
| "flt_le x NaN = False"
| "flt_le (Finite a) (Finite b) = (a \<le> b)"
| "flt_le NInf y = True"
| "flt_le x PInf = True"
| "flt_le x y = False"

definition pow2 :: "int \<Rightarrow> rat" where
  "pow2 k = (if 0 \<le> k then 2 ^ nat k else 1 / 2 ^ nat (- k))"

definition pow10 :: "int \<Rightarrow> rat" where
  "pow10 k = (if 0 \<le> k then 10 ^ nat k else 1 / 10 ^ nat (- k))"

text \<open>The number of binary digits of a positive integer.\<close>

function bit_length :: "int \<Rightarrow> int" where
  "bit_length n = (if n \<le> 0 then 0 else 1 + bit_length (n div 2))"
  by pat_completeness auto
termination
  by (relation "measure nat") auto

declare bit_length.simps [simp del]

text \<open>The binary exponent of a positive rational \<open>a\<close>: \<open>2 ^ e \<le> a < 2 ^ (e + 1)\<close>.\<close>

definition ilog2 :: "rat \<Rightarrow> int" where
  "ilog2 a = (let (n, d) = quotient_of a; k = bit_length n - bit_length d
              in if pow2 k \<le> a then k else k - 1)"

definition round_half_even :: "rat \<Rightarrow> int" where
  "round_half_even x =
     (let f = \<lfloor>x\<rfloor>; r = x - of_int f
      in if r < 1 / 2 then f else if 1 / 2 < r then f + 1 else if even f then f else f + 1)"

text \<open>
  Rounding to the nearest binary32 value, ties to even: 24 significant bits, the
  exponent bounded below by -126 (subnormal numbers) and not bounded above.
\<close>

definition round_binary32 :: "rat \<Rightarrow> rat" where
  "round_binary32 q =
     (if q = 0 then 0
      else let a = \<bar>q\<bar>; e = max (ilog2 a) (- 126); u = pow2 (e - 23)
           in sgn q * (of_int (round_half_even (a / u)) * u))"

definition float_of_rat :: "rat \<Rightarrow> flt" where
  "float_of_rat q =
     (let r = round_binary32 q
      in if pow2 128 \<le> \<bar>r\<bar> then (if 0 < q then PInf else NInf) else Finite r)"

text \<open>The implicit conversion of an \<^verbatim>\<open>int\<close> operand to \<^verbatim>\<open>float\<close>.\<close>

definition float_of_int :: "int \<Rightarrow> flt" where
  "float_of_int n = float_of_rat (of_int n)"

text \<open>
  The conversion \<^verbatim>\<open>int(f)\<close> of a \<^verbatim>\<open>float\<close>: truncation towards zero, undefined
  when the truncated value is not an \<^verbatim>\<open>int\<close> (32 bits).
\<close>

definition int_of_float :: "flt \<Rightarrow> error + int" where
  "int_of_float f =
     (case f of
        Finite q \<Rightarrow>
          (let t = (if 0 \<le> q then \<lfloor>q\<rfloor> else - \<lfloor>- q\<rfloor>)
           in if - (2 ^ 31) \<le> t \<and> t < 2 ^ 31 then Inr t else Inl undefined_behaviour)
      | _ \<Rightarrow> Inl undefined_behaviour)"

text \<open>
  The subject sequence of \<^verbatim>\<open>strtof\<close>, which \<^verbatim>\<open>std::stof\<close> calls: after leading
  white space and an optional sign, a decimal number (digits with an optional point
  and an optional exponent), a hexadecimal number after \<^verbatim>\<open>0x\<close>, \<^verbatim>\<open>inf\<close> or
  \<^verbatim>\<open>nan\<close> in any case. Whatever follows the subject sequence is ignored.
  \<open>subject_value\<close> is the exact value written, \<open>None\<close> when there is no subject
  sequence.
\<close>

definition digit_val :: "char \<Rightarrow> int" where
  "digit_val c =
     (let n = (of_char c :: int)
      in if 97 \<le> n then n - 87 else if 65 \<le> n then n - 55 else n - 48)"

definition digits_val :: "int \<Rightarrow> string \<Rightarrow> int" where
  "digits_val b ds = foldl (\<lambda>a c. b * a + digit_val c) 0 ds"

definition has_prefix_ci :: "string \<Rightarrow> string \<Rightarrow> bool" where
  "has_prefix_ci p s =
     (length p \<le> length s
      \<and> map (tolower \<circ> char_to_int) (take (length p) s) = map (tolower \<circ> char_to_int) p)"

text \<open>An exponent part: the marker, an optional sign and at least one decimal digit.\<close>

definition exponent_part :: "char \<Rightarrow> char \<Rightarrow> string \<Rightarrow> int" where
  "exponent_part lo up s =
     (case s of
        [] \<Rightarrow> 0
      | c # r \<Rightarrow>
          if c = lo \<or> c = up then
            (let neg = (r \<noteq> [] \<and> hd r = CHR ''-'');
                 r' = (if r \<noteq> [] \<and> (hd r = CHR ''-'' \<or> hd r = CHR ''+'') then tl r else r);
                 ds = takeWhile isdigit r'
             in if ds = [] then 0
                else if neg then - digits_val 10 ds else digits_val 10 ds)
          else 0)"

definition decimal_value :: "string \<Rightarrow> rat option" where
  "decimal_value s =
     (let ip = takeWhile isdigit s; r1 = dropWhile isdigit s;
          point = (r1 \<noteq> [] \<and> hd r1 = CHR ''.'');
          fp = (if point then takeWhile isdigit (tl r1) else []);
          r2 = (if point then dropWhile isdigit (tl r1) else r1)
      in if ip = [] \<and> fp = [] then None
         else Some (of_int (digits_val 10 (ip @ fp))
                    * pow10 (exponent_part (CHR ''e'') (CHR ''E'') r2 - int (length fp))))"

definition hex_value :: "string \<Rightarrow> rat option" where
  "hex_value s =
     (let ip = takeWhile isxdigit s; r1 = dropWhile isxdigit s;
          point = (r1 \<noteq> [] \<and> hd r1 = CHR ''.'');
          fp = (if point then takeWhile isxdigit (tl r1) else []);
          r2 = (if point then dropWhile isxdigit (tl r1) else r1)
      in if ip = [] \<and> fp = [] then None
         else Some (of_int (digits_val 16 (ip @ fp))
                    * pow2 (exponent_part (CHR ''p'') (CHR ''P'') r2 - 4 * int (length fp))))"

definition unsigned_value :: "string \<Rightarrow> flt option" where
  "unsigned_value s =
     (if has_prefix_ci ''inf'' s then Some PInf
      else if has_prefix_ci ''nan'' s then Some NaN
      else if has_prefix_ci ''0x'' s \<and> hex_value (drop 2 s) \<noteq> None
        then map_option Finite (hex_value (drop 2 s))
      else map_option Finite (decimal_value s))"

definition flt_neg :: "flt \<Rightarrow> flt" where
  "flt_neg f = (case f of Finite q \<Rightarrow> Finite (- q) | PInf \<Rightarrow> NInf | NInf \<Rightarrow> PInf | NaN \<Rightarrow> NaN)"

definition subject_value :: "string \<Rightarrow> flt option" where
  "subject_value s =
     (let t = dropWhile isspace s
      in if t \<noteq> [] \<and> hd t = CHR ''-'' then map_option flt_neg (unsigned_value (tl t))
         else if t \<noteq> [] \<and> hd t = CHR ''+'' then unsigned_value (tl t)
         else unsigned_value t)"

text \<open>
  \<^verbatim>\<open>std::stof\<close>: \<^verbatim>\<open>std::invalid_argument\<close> when no conversion can be performed,
  \<^verbatim>\<open>std::out_of_range\<close> when \<^verbatim>\<open>strtof\<close> reports a range error: the rounded value
  overflows, or it is below the normal range and inexact. Otherwise the written value
  rounded to single precision.
\<close>

definition stof :: "string \<Rightarrow> error + flt" where
  "stof s =
     (case subject_value s of
        None \<Rightarrow> Inl invalid_argument
      | Some (Finite q) \<Rightarrow>
          (case float_of_rat q of
             Finite r \<Rightarrow>
               if \<bar>q\<bar> < pow2 (- 126) \<and> r \<noteq> q then Inl out_of_range else Inr (Finite r)
           | _ \<Rightarrow> Inl out_of_range)
      | Some x \<Rightarrow> Inr x)"

text \<open>Printing an \<^verbatim>\<open>int\<close> in decimal, as \<^verbatim>\<open>operator<<\<close> of a stream does.\<close>

function show_digits :: "int \<Rightarrow> string" where
  "show_digits n =
     (if n < 10 then [char_of (48 + n)]
      else show_digits (n div 10) @ [char_of (48 + n mod 10)])"
  by pat_completeness auto
termination
  by (relation "measure nat") auto

declare show_digits.simps [simp del]

definition show_int :: "int \<Rightarrow> string" where
  "show_int i = (if i < 0 then CHR ''-'' # show_digits (- i) else show_digits i)"

text \<open>
  \<^verbatim>\<open>std::to_string(double)\<close> prints with \<^verbatim>\<open>%f\<close>: six digits after the point. Every
  call of the spin constructor in the file passes an integer, which a
  \<^verbatim>\<open>double\<close> holds exactly, so the function is modelled on integers.
\<close>

definition to_string :: "int \<Rightarrow> string" where
  "to_string v = show_int v @ ''.000000''"

subsection \<open>Options\<close>

text \<open>
  The change actions are the functions of the file whose address an Option can hold:
  the actions of the engine (their bodies call into other parts of the engine) and
  \<^verbatim>\<open>on_tune\<close> of the tuning framework.
\<close>

datatype OnChange =
    on_clear_hash | on_hash_size | on_large_pages | on_logger | on_threads | on_tb_path
  | on_HashFile | SaveHashtoFile | LoadHashfromFile | LoadEpdToHash
  | on_book_file | on_best_book_move | on_book_depth
  | on_tune

text \<open>
  The class \<^verbatim>\<open>UCI::Option\<close>. No constructor initialises \<^verbatim>\<open>idx\<close>: it is \<open>None\<close>
  until \<^verbatim>\<open>operator<<\<close> assigns it. A null \<^verbatim>\<open>on_change\<close> is \<open>None\<close>.
\<close>

record Option =
  defaultValue :: string
  currentValue :: string
  type :: string
  min_v :: int
  max_v :: int
  idx :: "nat option"
  on_change :: "OnChange option"

text \<open>The five constructors, in the order of the file.\<close>

definition Option_string :: "string \<Rightarrow> OnChange option \<Rightarrow> Option" where
  "Option_string v f =
     \<lparr>defaultValue = v, currentValue = v, type = ''string'', min_v = 0, max_v = 0,
      idx = None, on_change = f\<rparr>"

definition Option_check :: "bool \<Rightarrow> OnChange option \<Rightarrow> Option" where
  "Option_check v f =
     \<lparr>defaultValue = (if v then ''true'' else ''false''),
      currentValue = (if v then ''true'' else ''false''),
      type = ''check'', min_v = 0, max_v = 0, idx = None, on_change = f\<rparr>"

definition Option_button :: "OnChange option \<Rightarrow> Option" where
  "Option_button f =
     \<lparr>defaultValue = [], currentValue = [], type = ''button'', min_v = 0, max_v = 0,
      idx = None, on_change = f\<rparr>"

definition Option_spin :: "int \<Rightarrow> int \<Rightarrow> int \<Rightarrow> OnChange option \<Rightarrow> Option" where
  "Option_spin v minv maxv f =
     \<lparr>defaultValue = to_string v, currentValue = to_string v, type = ''spin'',
      min_v = minv, max_v = maxv, idx = None, on_change = f\<rparr>"

definition Option_combo :: "string \<Rightarrow> string \<Rightarrow> OnChange option \<Rightarrow> Option" where
  "Option_combo v cur f =
     \<lparr>defaultValue = v, currentValue = cur, type = ''combo'', min_v = 0, max_v = 0,
      idx = None, on_change = f\<rparr>"

text \<open>
  \<^verbatim>\<open>Option::operator<<\<close>: copies \<open>o\<close> into the Option and gives it the next value
  of the static counter \<^verbatim>\<open>insert_order\<close>. The result is the Option and the counter
  after the call.
\<close>

definition Option_shl :: "Option \<Rightarrow> Option \<Rightarrow> nat \<Rightarrow> Option \<times> nat" where
  "Option_shl this opt insert_order = (opt\<lparr>idx := Some insert_order\<rparr>, insert_order + 1)"

text \<open>
  The condition of the \<^verbatim>\<open>if\<close> of \<^verbatim>\<open>Option::operator=\<close>, with the short-circuit
  evaluation of \<^verbatim>\<open>||\<close> and \<^verbatim>\<open>&&\<close>: \<^verbatim>\<open>stof\<close> is called for a non-empty text on a
  spin Option only, and a second time when the first comparison is false.
\<close>

definition rejected :: "Option \<Rightarrow> string \<Rightarrow> error + bool" where
  "rejected opt v =
     (if type opt \<noteq> ''button'' \<and> v = [] then Inr True
      else if type opt = ''check'' \<and> v \<noteq> ''true'' \<and> v \<noteq> ''false'' then Inr True
      else if type opt = ''spin'' then
        (case stof v of
           Inl e \<Rightarrow> Inl e
         | Inr x \<Rightarrow>
             if flt_less x (float_of_int (min_v opt)) then Inr True
             else (case stof v of
                     Inl e \<Rightarrow> Inl e
                   | Inr y \<Rightarrow> Inr (flt_less (float_of_int (max_v opt)) y)))
      else Inr False)"

text \<open>
  \<^verbatim>\<open>Option::operator=\<close>. The result is the Option after the call and the actions it
  has invoked, in order, each on the Option after the call; \<open>Inl\<close> when the
  assertion fails or \<^verbatim>\<open>stof\<close> throws, which happens before any field is written.
\<close>

definition Option_assign :: "Option \<Rightarrow> string \<Rightarrow> error + (Option \<times> OnChange list)" where
  "Option_assign opt v =
     (if type opt = [] then Inl assertion_failed
      else case rejected opt v of
             Inl e \<Rightarrow> Inl e
           | Inr True \<Rightarrow> Inr (opt, [])
           | Inr False \<Rightarrow>
               (let opt' = (if type opt \<noteq> ''button'' then opt\<lparr>currentValue := v\<rparr> else opt)
                in Inr (opt', case on_change opt' of None \<Rightarrow> [] | Some f \<Rightarrow> [f])))"

subsection \<open>The registry\<close>

text \<open>\<^verbatim>\<open>std::lexicographical_compare\<close> with a comparison function.\<close>

fun lexicographical_compare :: "('a \<Rightarrow> 'a \<Rightarrow> bool) \<Rightarrow> 'a list \<Rightarrow> 'a list \<Rightarrow> bool" where
  "lexicographical_compare lt [] [] = False"
| "lexicographical_compare lt [] (y # ys) = True"
| "lexicographical_compare lt (x # xs) [] = False"
| "lexicographical_compare lt (x # xs) (y # ys) =
     (if lt x y then True
      else if lt y x then False
      else lexicographical_compare lt xs ys)"

definition CaseInsensitiveLess :: "string \<Rightarrow> string \<Rightarrow> bool" where
  "CaseInsensitiveLess s1 s2 =
     lexicographical_compare
       (\<lambda>c1 c2. tolower (char_to_int c1) < tolower (char_to_int c2)) s1 s2"

text \<open>
  \<^verbatim>\<open>UCI::OptionsMap\<close> is a \<^verbatim>\<open>std::map\<close> ordered by \<^verbatim>\<open>CaseInsensitiveLess\<close>. It is
  modelled by the list of its entries in iteration order, that is, sorted by key. A
  node of the map is named by the key stored in it.
\<close>

type_synonym OptionsMap = "(string \<times> Option) list"

definition sorted_map :: "OptionsMap \<Rightarrow> bool" where
  "sorted_map om = sorted_wrt CaseInsensitiveLess (map fst om)"

text \<open>\<^verbatim>\<open>find\<close>: the node whose key is equivalent to \<open>k\<close>, if there is one.\<close>

fun find_node :: "OptionsMap \<Rightarrow> string \<Rightarrow> (string \<times> Option) option" where
  "find_node [] k = None"
| "find_node ((k', v) # om) k =
     (if CaseInsensitiveLess k' k then find_node om k
      else if CaseInsensitiveLess k k' then None
      else Some (k', v))"

definition count :: "OptionsMap \<Rightarrow> string \<Rightarrow> nat" where
  "count om k = (case find_node om k of None \<Rightarrow> 0 | Some n \<Rightarrow> 1)"

text \<open>
  \<^verbatim>\<open>operator[]\<close>: the map after the call. When no key is equivalent to \<open>k\<close>, a
  node with key \<open>k\<close> and a default-constructed Option is inserted at its sorted
  place. The only constructor that takes no argument is the one of a button, with a
  null action.
\<close>

fun subscript :: "OptionsMap \<Rightarrow> string \<Rightarrow> OptionsMap" where
  "subscript [] k = [(k, Option_button None)]"
| "subscript ((k', v) # om) k =
     (if CaseInsensitiveLess k' k then (k', v) # subscript om k
      else if CaseInsensitiveLess k k' then (k, Option_button None) # (k', v) # om
      else (k', v) # om)"

text \<open>Writing through the reference that \<^verbatim>\<open>operator[]\<close> has returned.\<close>

fun update_node :: "OptionsMap \<Rightarrow> string \<Rightarrow> (Option \<Rightarrow> Option) \<Rightarrow> OptionsMap" where
  "update_node [] k f = []"
| "update_node ((k', v) # om) k f =
     (if CaseInsensitiveLess k' k then (k', v) # update_node om k f
      else if CaseInsensitiveLess k k' then (k', v) # om
      else (k', f v) # om)"

text \<open>
  The statement \<^verbatim>\<open>o[name] << opt\<close> of \<^verbatim>\<open>init\<close> and \<^verbatim>\<open>make_option\<close>, on the map and
  the static counter.
\<close>

definition insert_option :: "OptionsMap \<times> nat \<Rightarrow> string \<Rightarrow> Option \<Rightarrow> OptionsMap \<times> nat" where
  "insert_option s name opt =
     (let om = subscript (fst s) name
      in (update_node om name (\<lambda>this. fst (Option_shl this opt (snd s))),
          snd (Option_shl (Option_button None) opt (snd s))))"

subsection \<open>Printing the registry\<close>

text \<open>
  The body of the innermost \<^verbatim>\<open>if\<close> of \<^verbatim>\<open>operator<<(std::ostream&, const OptionsMap&)\<close>:
  the stream after the descriptor of one entry has been written.
\<close>

definition print_entry :: "string \<Rightarrow> string \<Rightarrow> Option \<Rightarrow> error + string" where
  "print_entry os name opt =
     (let os1 = os @ ''\<newline>option name '' @ name @ '' type '' @ type opt;
          os2 = (if type opt = ''string'' \<or> type opt = ''check'' \<or> type opt = ''combo''
                 then os1 @ '' default '' @ defaultValue opt else os1)
      in if type opt = ''spin'' then
           (case stof (defaultValue opt) of
              Inl e \<Rightarrow> Inl e
            | Inr f \<Rightarrow>
                (case int_of_float f of
                   Inl e \<Rightarrow> Inl e
                 | Inr d \<Rightarrow>
                     Inr (os2 @ '' default '' @ show_int d
                          @ '' min '' @ show_int (min_v opt)
                          @ '' max '' @ show_int (max_v opt))))
         else Inr os2)"

text \<open>
  The inner loop: the first entry, in key order, whose \<^verbatim>\<open>idx\<close> is the one looked
  for. Reading an \<^verbatim>\<open>idx\<close> that was never assigned is undefined.
\<close>

fun first_with_idx :: "nat \<Rightarrow> OptionsMap \<Rightarrow> error + (string \<times> Option) option" where
  "first_with_idx i [] = Inr None"
| "first_with_idx i ((k, v) # om) =
     (case idx v of
        None \<Rightarrow> Inl undefined_behaviour
      | Some j \<Rightarrow> if j = i then Inr (Some (k, v)) else first_with_idx i om)"

text \<open>The outer loop, over the indices it still has to visit.\<close>

fun print_loop :: "nat list \<Rightarrow> OptionsMap \<Rightarrow> string \<Rightarrow> error + string" where
  "print_loop [] om os = Inr os"
| "print_loop (i # js) om os =
     (case first_with_idx i om of
        Inl e \<Rightarrow> Inl e
      | Inr None \<Rightarrow> print_loop js om os
      | Inr (Some (k, v)) \<Rightarrow>
          (case print_entry os k v of Inl e \<Rightarrow> Inl e | Inr os' \<Rightarrow> print_loop js om os'))"

definition print_OptionsMap :: "string \<Rightarrow> OptionsMap \<Rightarrow> error + string" where
  "print_OptionsMap os om = print_loop [0..<length om] om os"

subsection \<open>The tuning framework\<close>

text \<open>
  \<^verbatim>\<open>SetRange\<close> is declared in a header that is not among the sources; the file only
  calls it on a value and reads the two components of the pair it returns.
\<close>

type_synonym SetRange = "int \<Rightarrow> int \<times> int"

text \<open>
  A line that \<^verbatim>\<open>make_option\<close> prints on \<^verbatim>\<open>std::cout\<close>: the name, the value, the
  two bounds, the step \<^verbatim>\<open>(max - min) / 20.0\<close> (kept as the exact quotient: the
  printing of a \<^verbatim>\<open>double\<close> is not modelled) and the constant text.
\<close>

datatype tune_line = TuneLine string int int int rat string

text \<open>
  What the change actions do outside the file: \<^verbatim>\<open>on_tune\<close> calls
  \<^verbatim>\<open>Tune::read_options()\<close>, declared in the absent header, and every other action
  calls into the engine. Both are recorded as calls.
\<close>

datatype call = read_options | engine OnChange

text \<open>
  The global state: \<^verbatim>\<open>Options\<close>, the static counter of \<^verbatim>\<open>Option::operator<<\<close>,
  \<^verbatim>\<open>Tune::update_on_last\<close>, \<^verbatim>\<open>LastOption\<close> (a pointer to a node of \<^verbatim>\<open>Options\<close>,
  modelled by the key stored in the node; \<open>None\<close> is the null pointer),
  \<^verbatim>\<open>TuneResults\<close>, the lines written to \<^verbatim>\<open>std::cout\<close> and the calls made.
\<close>

record globals =
  Options :: OptionsMap
  insert_order :: nat
  update_on_last :: bool
  LastOption :: "string option"
  TuneResults :: "string \<rightharpoonup> int"
  cout :: "tune_line list"
  calls :: "call list"

text \<open>\<^verbatim>\<open>on_tune\<close>, called on the Option held by node \<open>a\<close> of \<^verbatim>\<open>Options\<close>.\<close>

definition on_tune_action :: "string \<Rightarrow> globals \<Rightarrow> globals" where
  "on_tune_action a g =
     (if \<not> update_on_last g \<or> LastOption g = Some a
      then g\<lparr>calls := calls g @ [read_options]\<rparr>
      else g)"

text \<open>The call \<^verbatim>\<open>on_change(*this)\<close> through the function pointer \<open>f\<close>.\<close>

definition invoke :: "string \<Rightarrow> globals \<Rightarrow> OnChange \<Rightarrow> globals" where
  "invoke a g f =
     (if f = on_tune then on_tune_action a g else g\<lparr>calls := calls g @ [engine f]\<rparr>)"

text \<open>
  The statement \<^verbatim>\<open>Options[name] = v\<close>, by which a caller assigns to a registered
  Option: \<^verbatim>\<open>operator[]\<close>, then \<^verbatim>\<open>Option::operator=\<close> on the node found, whose
  actions run on the global state.
\<close>

definition assign_at :: "string \<Rightarrow> string \<Rightarrow> globals \<Rightarrow> error + globals" where
  "assign_at name v g =
     (let om = subscript (Options g) name
      in case find_node om name of
           None \<Rightarrow> Inl undefined_behaviour
         | Some (k, opt) \<Rightarrow>
             (case Option_assign opt v of
                Inl e \<Rightarrow> Inl e
              | Inr (opt', fs) \<Rightarrow>
                  Inr (foldl (invoke k) (g\<lparr>Options := update_node om name (\<lambda>this. opt')\<rparr>) fs)))"

definition make_option :: "string \<Rightarrow> int \<Rightarrow> SetRange \<Rightarrow> globals \<Rightarrow> globals" where
  "make_option n v r g =
     (if fst (r v) = snd (r v) then g
      else
        let v' = (case TuneResults g n of None \<Rightarrow> v | Some x \<Rightarrow> x);
            s = insert_option (Options g, insert_order g) n
                  (Option_spin v' (fst (r v')) (snd (r v')) (Some on_tune));
            om = subscript (fst s) n
        in g\<lparr>Options := om,
              insert_order := snd s,
              LastOption := map_option fst (find_node om n),
              cout := cout g @ [TuneLine n v' (fst (r v')) (snd (r v'))
                                  (of_int (snd (r v') - fst (r v')) / 20) ''0.0020'']\<rparr>)"

text \<open>
  Modelled from the spec: the type \<^verbatim>\<open>Score\<close> and its accessors \<^verbatim>\<open>mg_value\<close> and
  \<^verbatim>\<open>eg_value\<close> are declared in a header that is not among the sources. The spec
  describes a score as a pair of a midgame and an endgame scalar.
\<close>

type_synonym Score = "int \<times> int"

definition mg_value :: "Score \<Rightarrow> int" where
  "mg_value s = fst s"

definition eg_value :: "Score \<Rightarrow> int" where
  "eg_value s = snd s"

text \<open>
  The specialisations of \<^verbatim>\<open>Tune::Entry<T>\<close> of the file, each with its name, its
  value and its range; a \<^verbatim>\<open>PostUpdate\<close> entry holds a function instead of a value.
\<close>

datatype Entry =
    Entry_int string int SetRange
  | Entry_Value string int SetRange
  | Entry_Score string Score SetRange
  | Entry_PostUpdate string

fun init_option :: "Entry \<Rightarrow> globals \<Rightarrow> globals" where
  "init_option (Entry_int name v r) g = make_option name v r g"
| "init_option (Entry_Value name v r) g = make_option name v r g"
| "init_option (Entry_Score name v r) g =
     make_option (''e'' @ name) (eg_value v) r (make_option (''m'' @ name) (mg_value v) r g)"
| "init_option (Entry_PostUpdate name) g = g"

subsection \<open>Binary conditions\<close>

text \<open>
  The members of \<^verbatim>\<open>BoolConditions\<close> that \<^verbatim>\<open>set\<close> uses. The class is declared in the
  absent header; in the file \<^verbatim>\<open>binary\<close> and \<^verbatim>\<open>values\<close> are indexed and
  \<^verbatim>\<open>variance\<close> and \<^verbatim>\<open>threshold\<close> are scalars.
\<close>

record BoolConditions =
  binary :: "bool list"
  values_v :: "int list"
  variance :: int
  threshold :: int

text \<open>
  The right-hand side of the assignment to \<^verbatim>\<open>binary[i]\<close>. The generator is a
  parameter: \<open>rand\<close> is \<^verbatim>\<open>rng.rand<unsigned>()\<close>, from a state to the number drawn
  and the next state. With \<^verbatim>\<open>startup\<close> set, \<^verbatim>\<open>&&\<close> evaluates nothing else. The
  remainder is taken on \<^verbatim>\<open>unsigned\<close> (32 bits) and converted to \<^verbatim>\<open>int\<close>; the sum
  is taken in the integers.
\<close>

definition set_flag ::
  "('r \<Rightarrow> 32 word \<times> 'r) \<Rightarrow> bool \<Rightarrow> BoolConditions \<Rightarrow> nat \<Rightarrow> 'r \<Rightarrow> error + (bool \<times> 'r)" where
  "set_flag rand startup bc i rng =
     (if startup then Inr (False, rng)
      else if length (values_v bc) \<le> i then Inl undefined_behaviour
      else if (word_of_int (variance bc) :: 32 word) = 0 then Inl undefined_behaviour
      else let (x, rng') = rand rng
           in Inr (threshold bc < values_v bc ! i + sint (x mod word_of_int (variance bc)),
                   rng'))"

fun set_loop ::
  "('r \<Rightarrow> 32 word \<times> 'r) \<Rightarrow> bool \<Rightarrow> nat list \<Rightarrow> BoolConditions \<Rightarrow> 'r
     \<Rightarrow> error + (BoolConditions \<times> 'r)" where
  "set_loop rand startup [] bc rng = Inr (bc, rng)"
| "set_loop rand startup (i # js) bc rng =
     (case set_flag rand startup bc i rng of
        Inl e \<Rightarrow> Inl e
      | Inr (b, rng') \<Rightarrow> set_loop rand startup js (bc\<lparr>binary := (binary bc)[i := b]\<rparr>) rng')"

text \<open>
  \<^verbatim>\<open>BoolConditions::set\<close>, on the object, the two static variables \<^verbatim>\<open>rng\<close> and
  \<^verbatim>\<open>startup\<close>, and the lines written to the output so far.
\<close>

definition BoolConditions_set ::
  "('r \<Rightarrow> 32 word \<times> 'r) \<Rightarrow> BoolConditions \<Rightarrow> 'r \<times> bool \<Rightarrow> string list
     \<Rightarrow> error + (BoolConditions \<times> ('r \<times> bool) \<times> string list)" where
  "BoolConditions_set rand bc statics out =
     (case set_loop rand (snd statics) [0..<length (binary bc)] bc (fst statics) of
        Inl e \<Rightarrow> Inl e
      | Inr (bc', rng') \<Rightarrow>
          Inr (bc', (rng', False),
               out @ map (\<lambda>b. if b then ''1'' else ''0'') (binary bc')))"

subsection \<open>Notions used to state the properties\<close>

text \<open>
  Two names differ only in letter case when they agree character by character after
  \<^verbatim>\<open>tolower\<close>.
\<close>

definition fold_case :: "string \<Rightarrow> int list" where
  "fold_case s = map (tolower \<circ> char_to_int) s"

text \<open>
  A sequence of statements \<^verbatim>\<open>o[name] << opt\<close>, as in \<^verbatim>\<open>init\<close>, run in a fresh
  process on an empty map: the map and the static counter after the last one.
\<close>

definition insert_all :: "(string \<times> Option) list \<Rightarrow> OptionsMap \<times> nat" where
  "insert_all ins = foldl (\<lambda>s (name, opt). insert_option s name opt) ([], 0) ins"

text \<open>Writing the descriptors of the given entries to a stream, one after the other.\<close>

fun print_entries :: "string \<Rightarrow> (string \<times> Option) list \<Rightarrow> error + string" where
  "print_entries os [] = Inr os"
| "print_entries os ((k, v) # es) =
     (case print_entry os k v of Inl e \<Rightarrow> Inl e | Inr os' \<Rightarrow> print_entries os' es)"

text \<open>
  The key stored in the node that \<^verbatim>\<open>operator[]\<close> returns for a name: the key of
  the node found, or the name itself when a node is inserted.
\<close>

definition stored_key :: "OptionsMap \<Rightarrow> string \<Rightarrow> string" where
  "stored_key om n = (case find_node om n of None \<Rightarrow> n | Some (k, v) \<Rightarrow> k)"

text \<open>
  A registration \<^verbatim>\<open>o[name] << Option(...)\<close>, by the constructor it calls and the
  arguments it passes, and the Option that the constructor makes.
\<close>

datatype registration =
    reg_string string "OnChange option"
  | reg_check bool "OnChange option"
  | reg_button "OnChange option"
  | reg_spin int int int "OnChange option"
  | reg_combo string string "OnChange option"

fun construct :: "registration \<Rightarrow> Option" where
  "construct (reg_string v f) = Option_string v f"
| "construct (reg_check v f) = Option_check v f"
| "construct (reg_button f) = Option_button f"
| "construct (reg_spin v minv maxv f) = Option_spin v minv maxv f"
| "construct (reg_combo v cur f) = Option_combo v cur f"

text \<open>
  Following the spec's words (descriptor line format): the line of a registered
  Option is \<^verbatim>\<open>option name <Name> type <kind>\<close>, then \<^verbatim>\<open>default <value>\<close> for the
  kinds check, string and combo, \<^verbatim>\<open>default <value> min <min> max <max>\<close> for a
  spin, and nothing for a button. The stream starts each line with a line break.
\<close>

fun descriptor :: "string \<Rightarrow> registration \<Rightarrow> string" where
  "descriptor name (reg_string v f) =
     ''\<newline>option name '' @ name @ '' type string default '' @ v"
| "descriptor name (reg_check v f) =
     ''\<newline>option name '' @ name @ '' type check default ''
       @ (if v then ''true'' else ''false'')"
| "descriptor name (reg_button f) = ''\<newline>option name '' @ name @ '' type button''"
| "descriptor name (reg_spin v minv maxv f) =
     ''\<newline>option name '' @ name @ '' type spin default '' @ show_int v
       @ '' min '' @ show_int minv @ '' max '' @ show_int maxv"
| "descriptor name (reg_combo v cur f) =
     ''\<newline>option name '' @ name @ '' type combo default '' @ v"

text \<open>The default of a spin is of magnitude at most \<open>2 ^ 24\<close>.\<close>

fun default_fits :: "registration \<Rightarrow> bool" where
  "default_fits (reg_spin v minv maxv f) = (\<bar>v\<bar> \<le> 2 ^ 24)"
| "default_fits r = True"

section \<open>Properties\<close>

subsection \<open>Single precision holds every integer up to \<open>2 ^ 24\<close> exactly\<close>

lemma bit_length_nonneg: "0 \<le> bit_length n"
  by (induction n rule: bit_length.induct) (subst bit_length.simps, simp)

lemma bit_length_pos: "0 < n \<Longrightarrow> 1 \<le> bit_length n"
  using bit_length_nonneg [of "n div 2"] by (subst bit_length.simps) simp

lemma bit_length_bounds:
  "0 < n \<Longrightarrow> 2 ^ nat (bit_length n - 1) \<le> n \<and> n < 2 ^ nat (bit_length n)"
proof (induction n rule: bit_length.induct)
  case (1 n)
  have bl: "bit_length n = 1 + bit_length (n div 2)"
    using 1(2) by (subst bit_length.simps) simp
  show ?case
  proof (cases "n = 1")
    case True
    have "bit_length (1 div 2) = 0" by (subst bit_length.simps) simp
    with bl True show ?thesis by simp
  next
    case False
    with 1(2) have h: "0 < n div 2" by linarith
    from 1(1) h 1(2)
    have ih: "2 ^ nat (bit_length (n div 2) - 1) \<le> n div 2"
      "n div 2 < 2 ^ nat (bit_length (n div 2))"
      by auto
    have p: "1 \<le> bit_length (n div 2)" using h by (rule bit_length_pos)
    have e1: "nat (bit_length n - 1) = Suc (nat (bit_length (n div 2) - 1))"
      using bl p by simp
    have e2: "nat (bit_length n) = Suc (nat (bit_length (n div 2)))"
      using bl p by simp
    show ?thesis unfolding e1 e2 using ih by simp linarith
  qed
qed

lemma ilog2_of_int:
  assumes "0 < m"
  shows "ilog2 (of_int m) = bit_length m - 1"
proof -
  have one: "bit_length 1 = 1"
    by (subst bit_length.simps, subst bit_length.simps) simp
  have "(2::int) ^ nat (bit_length m - 1) \<le> m"
    using bit_length_bounds [OF assms] by simp
  then have "(of_int ((2::int) ^ nat (bit_length m - 1)) :: rat) \<le> of_int m"
    by (simp only: of_int_le_iff)
  then have "pow2 (bit_length m - 1) \<le> of_int m"
    using bit_length_pos [OF assms] by (simp add: pow2_def)
  then show ?thesis
    by (simp add: ilog2_def one)
qed

lemma round_half_even_of_int: "round_half_even (of_int z) = z"
  by (simp add: round_half_even_def)

lemma round_binary32_nat_exact:
  assumes "0 < m" "m \<le> 2 ^ 24"
  shows "round_binary32 (of_int m) = of_int m"
proof -
  define e where "e = bit_length m - 1"
  have e0: "0 \<le> e" using bit_length_pos [OF assms(1)] by (simp add: e_def)
  have lo: "(2::int) ^ nat e \<le> m"
    using bit_length_bounds [OF assms(1)] by (simp add: e_def)
  have le24: "(2::int) ^ nat e \<le> 2 ^ 24" using lo assms(2) by linarith
  have "nat e \<le> 24"
  proof (rule ccontr)
    assume "\<not> nat e \<le> 24"
    then have "25 \<le> nat e" by simp
    then have "(2::int) ^ 25 \<le> 2 ^ nat e" by (rule power_increasing) simp
    with le24 show False by simp
  qed
  then have e24: "e \<le> 24" by simp
  define u where "u = pow2 (e - 23)"
  have upos: "u \<noteq> 0" by (simp add: u_def pow2_def)
  have "\<exists>z. (of_int m :: rat) / u = of_int z"
  proof (cases "e \<le> 23")
    case True
    have "(2::rat) ^ nat (23 - e) * u = 1"
    proof (cases "e = 23")
      case True then show ?thesis by (simp add: u_def pow2_def)
    next
      case False
      with \<open>e \<le> 23\<close> have "e - 23 < 0" by simp
      moreover have "nat (- (e - 23)) = nat (23 - e)" by simp
      ultimately show ?thesis by (simp add: u_def pow2_def)
    qed
    then have "(of_int m :: rat) / u = of_int m * 2 ^ nat (23 - e)"
      using upos by (simp add: field_simps)
    also have "\<dots> = of_int (m * 2 ^ nat (23 - e))" by simp
    finally show ?thesis by blast
  next
    case False
    with e24 have e: "e = 24" by simp
    with lo assms(2) have "m = 2 ^ 24" by simp
    moreover have "u = 2" using e by (simp add: u_def pow2_def)
    ultimately have "(of_int m :: rat) / u = of_int (2 ^ 23)" by simp
    then show ?thesis by blast
  qed
  then obtain z where z: "(of_int m :: rat) / u = of_int z" by blast
  then have zu: "of_int z * u = (of_int m :: rat)" using upos by (simp add: field_simps)
  have il: "ilog2 (of_int m) = e" using ilog2_of_int [OF assms(1)] by (simp add: e_def)
  have mx: "max e (- 126) = e" using e0 by simp
  have mpos: "(0::rat) < of_int m" using assms(1) by simp
  show ?thesis
    using assms(1) mpos z zu
    by (simp add: round_binary32_def Let_def il mx u_def [symmetric] round_half_even_of_int)
qed

lemma round_binary32_minus: "round_binary32 (- q) = - round_binary32 q"
  by (simp add: round_binary32_def Let_def)

lemma round_binary32_int_exact:
  assumes "\<bar>n\<bar> \<le> 2 ^ 24"
  shows "round_binary32 (of_int n) = of_int n"
proof -
  consider "n = 0" | "0 < n" | "n < 0" by linarith
  then show ?thesis
  proof cases
    case 1 then show ?thesis by (simp add: round_binary32_def)
  next
    case 2 then show ?thesis using assms round_binary32_nat_exact [of n] by simp
  next
    case 3
    then have "round_binary32 (of_int (- n)) = of_int (- n)"
      using assms round_binary32_nat_exact [of "- n"] by simp
    then show ?thesis using round_binary32_minus [of "of_int n"] by simp
  qed
qed

lemma float_of_int_exact:
  assumes "\<bar>n\<bar> \<le> 2 ^ 24"
  shows "float_of_int n = Finite (of_int n)"
proof -
  have "\<bar>of_int n :: rat\<bar> \<le> 2 ^ 24"
    using assms by (metis of_int_abs of_int_le_iff of_int_numeral of_int_power)
  then have "\<not> pow2 128 \<le> \<bar>of_int n :: rat\<bar>" by (simp add: pow2_def)
  then show ?thesis
    by (simp add: float_of_int_def float_of_rat_def Let_def round_binary32_int_exact [OF assms])
qed

lemma float_of_int_not_NaN: "float_of_int n \<noteq> NaN"
  by (simp add: float_of_int_def float_of_rat_def Let_def)

lemma flt_not_le: "x \<noteq> NaN \<Longrightarrow> y \<noteq> NaN \<Longrightarrow> (\<not> flt_le y x) = flt_less x y"
  by (cases x; cases y) auto

subsection \<open>Assignment to an Option\<close>

text \<open>
  C10. \<^verbatim>\<open>Option::operator=\<close>, whenever it returns (the text accepted or rejected,
  the Option of any kind), leaves \<^verbatim>\<open>type\<close>, \<^verbatim>\<open>defaultValue\<close>, \<^verbatim>\<open>min\<close>, \<^verbatim>\<open>max\<close>,
  \<^verbatim>\<open>idx\<close> and \<^verbatim>\<open>on_change\<close> as they were: the Option after the call is the Option
  before it with at most \<^verbatim>\<open>currentValue\<close> replaced, and the Option of a button is
  not changed at all. (When the call raises instead, it does so while the condition
  is evaluated, before any field is written.)
\<close>

theorem assign_frame:
  assumes "Option_assign opt v = Inr (opt', fs)"
  shows "type opt' = type opt \<and> defaultValue opt' = defaultValue opt
       \<and> min_v opt' = min_v opt \<and> max_v opt' = max_v opt
       \<and> idx opt' = idx opt \<and> on_change opt' = on_change opt
       \<and> opt' = opt\<lparr>currentValue := currentValue opt'\<rparr>
       \<and> (type opt = ''button'' \<longrightarrow> opt' = opt)"
  using assms
  by (auto simp: Option_assign_def Let_def split: if_splits sum.splits bool.splits)

theorem assign_frame_witness:
  "Option_assign (Option_spin 4 1 512 (Some on_threads)) ''8''
     = Inr ((Option_spin 4 1 512 (Some on_threads))\<lparr>currentValue := ''8''\<rparr>, [on_threads])
   \<and> idx ((Option_spin 4 1 512 (Some on_threads))\<lparr>currentValue := ''8''\<rparr>)
     = idx (Option_spin 4 1 512 (Some on_threads))"
proof -
  have h: "Option_assign (Option_spin 4 1 512 (Some on_threads)) ''8''
     = Inr ((Option_spin 4 1 512 (Some on_threads))\<lparr>currentValue := ''8''\<rparr>, [on_threads])"
    by code_simp
  from assign_frame [OF h] h show ?thesis by simp
qed

text \<open>
  C1, as stated, fails: a spin Option given a text that \<^verbatim>\<open>stof\<close> cannot parse does
  not return silently. \<^verbatim>\<open>stof\<close> throws \<^verbatim>\<open>std::invalid_argument\<close>, nothing in the
  file catches it, and it reaches the caller.
\<close>

theorem assign_unparsable_spin_raises:
  "stof ''abc'' = Inl invalid_argument
   \<and> Option_assign (Option_spin 4 1 512 (Some on_threads)) ''abc'' = Inl invalid_argument"
  by code_simp

text \<open>
  C1, amended. For an Option of any kind (its \<^verbatim>\<open>type\<close> set, as every constructor
  does) and a text that is empty for a kind other than button, or is neither
  \<^verbatim>\<open>true\<close> nor \<^verbatim>\<open>false\<close> for a check, or that \<^verbatim>\<open>stof\<close> parses as a number
  outside the bounds of a spin (the bounds converted to single precision, as the
  comparison does), \<^verbatim>\<open>operator=\<close> returns normally, the Option is unchanged and no
  action is invoked.
\<close>

theorem assign_invalid_is_noop:
  assumes "type opt \<noteq> []"
    and "(type opt \<noteq> ''button'' \<and> v = [])
       \<or> (type opt = ''check'' \<and> v \<noteq> ''true'' \<and> v \<noteq> ''false'')
       \<or> (type opt = ''spin'' \<and> (\<exists>x. stof v = Inr x \<and> x \<noteq> NaN
             \<and> \<not> (flt_le (float_of_int (min_v opt)) x \<and> flt_le x (float_of_int (max_v opt)))))"
  shows "Option_assign opt v = Inr (opt, [])"
proof -
  have "rejected opt v = Inr True"
  proof -
    consider (empty) "type opt \<noteq> ''button''" "v = []"
      | (check) "type opt = ''check''" "v \<noteq> ''true''" "v \<noteq> ''false''"
      | (spin) x where "type opt = ''spin''" "v \<noteq> []" "stof v = Inr x" "x \<noteq> NaN"
          "\<not> (flt_le (float_of_int (min_v opt)) x \<and> flt_le x (float_of_int (max_v opt)))"
      using assms(2) by (cases "v = []") auto
    then show ?thesis
    proof cases
      case empty then show ?thesis by (simp add: rejected_def)
    next
      case check then show ?thesis by (simp add: rejected_def)
    next
      case spin
      have "flt_less x (float_of_int (min_v opt)) \<or> flt_less (float_of_int (max_v opt)) x"
        using spin(5) flt_not_le [OF spin(4) float_of_int_not_NaN]
          flt_not_le [OF float_of_int_not_NaN spin(4)]
        by blast
      with spin(1,2,3) show ?thesis by (auto simp: rejected_def)
    qed
  qed
  with assms(1) show ?thesis by (simp add: Option_assign_def)
qed

theorem assign_invalid_is_noop_witness:
  "stof ''0'' = Inr (Finite 0) \<and> float_of_int 1 = Finite 1
   \<and> Option_assign (Option_spin 4 1 512 (Some on_threads)) ''0''
       = Inr (Option_spin 4 1 512 (Some on_threads), [])
   \<and> Option_assign (Option_check True (Some on_best_book_move)) ''yes''
       = Inr (Option_check True (Some on_best_book_move), [])
   \<and> Option_assign (Option_string ''hash.hsh'' (Some on_HashFile)) []
       = Inr (Option_string ''hash.hsh'' (Some on_HashFile), [])"
proof -
  have s: "stof ''0'' = Inr (Finite 0)" by code_simp
  have lo: "float_of_int 1 = Finite 1" by code_simp
  have a: "Option_assign (Option_spin 4 1 512 (Some on_threads)) ''0''
       = Inr (Option_spin 4 1 512 (Some on_threads), [])"
    using assign_invalid_is_noop [of "Option_spin 4 1 512 (Some on_threads)" "''0''"] s lo
    by (simp add: Option_spin_def)
  have b: "Option_assign (Option_check True (Some on_best_book_move)) ''yes''
       = Inr (Option_check True (Some on_best_book_move), [])"
    using assign_invalid_is_noop [of "Option_check True (Some on_best_book_move)" "''yes''"]
    by (simp add: Option_check_def)
  have c: "Option_assign (Option_string ''hash.hsh'' (Some on_HashFile)) []
       = Inr (Option_string ''hash.hsh'' (Some on_HashFile), [])"
    using assign_invalid_is_noop [of "Option_string ''hash.hsh'' (Some on_HashFile)" "[]"]
    by (simp add: Option_string_def)
  from s lo a b c show ?thesis by simp
qed

text \<open>
  C2, as stated, fails: the comparison is made in single precision, to which the
  bounds are converted. A spin Option whose \<^verbatim>\<open>min\<close> is 16777217 accepts the text
  \<^verbatim>\<open>16777216\<close>, a number below \<^verbatim>\<open>min\<close>, because 16777217 rounds to 16777216.
\<close>

theorem spin_accepts_below_min:
  "min_v (Option_spin 16777220 16777217 16777230 (Some on_tune)) = 16777217
   \<and> stof ''16777216'' = Inr (Finite 16777216)
   \<and> Option_assign (Option_spin 16777220 16777217 16777230 (Some on_tune)) ''16777216''
       = Inr ((Option_spin 16777220 16777217 16777230 (Some on_tune))\<lparr>currentValue := ''16777216''\<rparr>,
              [on_tune])"
  by code_simp

text \<open>
  C2, amended. For a spin Option and a non-empty text that \<^verbatim>\<open>stof\<close> parses as a
  number \<open>x\<close>, \<^verbatim>\<open>operator=\<close> accepts the text if and only if \<open>x\<close> lies between
  \<^verbatim>\<open>min\<close> and \<^verbatim>\<open>max\<close> converted to single precision, both ends included; then
  \<^verbatim>\<open>currentValue\<close> becomes the text and the registered action, if any, is invoked
  exactly once; otherwise nothing changes and nothing is invoked. A bound of
  magnitude at most \<open>2 ^ 24\<close> is converted to itself.
\<close>

theorem spin_assign_bounds:
  assumes "type opt = ''spin''" and "v \<noteq> []" and "stof v = Inr x" and "x \<noteq> NaN"
  shows "Option_assign opt v =
           (if flt_le (float_of_int (min_v opt)) x \<and> flt_le x (float_of_int (max_v opt))
            then Inr (opt\<lparr>currentValue := v\<rparr>, case on_change opt of None \<Rightarrow> [] | Some f \<Rightarrow> [f])
            else Inr (opt, []))
         \<and> (\<bar>min_v opt\<bar> \<le> 2 ^ 24 \<longrightarrow> float_of_int (min_v opt) = Finite (of_int (min_v opt)))
         \<and> (\<bar>max_v opt\<bar> \<le> 2 ^ 24 \<longrightarrow> float_of_int (max_v opt) = Finite (of_int (max_v opt)))"
proof -
  have lo: "flt_less x (float_of_int (min_v opt)) = (\<not> flt_le (float_of_int (min_v opt)) x)"
    using flt_not_le [OF assms(4) float_of_int_not_NaN] by simp
  have hi: "flt_less (float_of_int (max_v opt)) x = (\<not> flt_le x (float_of_int (max_v opt)))"
    using flt_not_le [OF float_of_int_not_NaN assms(4)] by simp
  have r: "rejected opt v
     = Inr (\<not> (flt_le (float_of_int (min_v opt)) x \<and> flt_le x (float_of_int (max_v opt))))"
    using assms(1,2,3) by (simp add: rejected_def lo hi)
  have "Option_assign opt v =
           (if flt_le (float_of_int (min_v opt)) x \<and> flt_le x (float_of_int (max_v opt))
            then Inr (opt\<lparr>currentValue := v\<rparr>, case on_change opt of None \<Rightarrow> [] | Some f \<Rightarrow> [f])
            else Inr (opt, []))"
    using assms(1) by (simp add: Option_assign_def r)
  then show ?thesis by (simp add: float_of_int_exact)
qed

theorem spin_assign_bounds_witness:
  "Option_assign (Option_spin 4 1 512 (Some on_threads)) ''0''
       = Inr (Option_spin 4 1 512 (Some on_threads), [])
   \<and> Option_assign (Option_spin 4 1 512 (Some on_threads)) ''8''
       = Inr ((Option_spin 4 1 512 (Some on_threads))\<lparr>currentValue := ''8''\<rparr>, [on_threads])
   \<and> Option_assign (Option_spin 4 1 512 (Some on_threads)) ''1''
       = Inr ((Option_spin 4 1 512 (Some on_threads))\<lparr>currentValue := ''1''\<rparr>, [on_threads])
   \<and> Option_assign (Option_spin 4 1 512 (Some on_threads)) ''512''
       = Inr ((Option_spin 4 1 512 (Some on_threads))\<lparr>currentValue := ''512''\<rparr>, [on_threads])
   \<and> Option_assign (Option_spin 4 1 512 (Some on_threads)) ''513''
       = Inr (Option_spin 4 1 512 (Some on_threads), [])"
proof -
  let ?o = "Option_spin 4 1 512 (Some on_threads)"
  have t: "type ?o = ''spin''" "min_v ?o = 1" "max_v ?o = 512" "on_change ?o = Some on_threads"
    by (simp_all add: Option_spin_def)
  have s: "stof ''0'' = Inr (Finite 0)" "stof ''8'' = Inr (Finite 8)" "stof ''1'' = Inr (Finite 1)"
    "stof ''512'' = Inr (Finite 512)" "stof ''513'' = Inr (Finite 513)"
    by code_simp+
  have b: "float_of_int 1 = Finite 1" "float_of_int 512 = Finite 512"
    by code_simp+
  show ?thesis
    using spin_assign_bounds [OF t(1) _ s(1)] spin_assign_bounds [OF t(1) _ s(2)]
      spin_assign_bounds [OF t(1) _ s(3)] spin_assign_bounds [OF t(1) _ s(4)]
      spin_assign_bounds [OF t(1) _ s(5)]
    by (simp add: t b)
qed

subsection \<open>The order of the keys\<close>

lemma CaseInsensitiveLess_lexord:
  "CaseInsensitiveLess a b = ((fold_case a, fold_case b) \<in> lexord {(x, y). x < y})"
  unfolding CaseInsensitiveLess_def fold_case_def
  by (induction "\<lambda>c1 c2. tolower (char_to_int c1) < tolower (char_to_int c2)" a b
      rule: lexicographical_compare.induct) auto

lemma ci_less_cong:
  "fold_case a = fold_case b \<Longrightarrow> CaseInsensitiveLess a c = CaseInsensitiveLess b c"
  "fold_case a = fold_case b \<Longrightarrow> CaseInsensitiveLess c a = CaseInsensitiveLess c b"
  by (simp_all add: CaseInsensitiveLess_lexord)

lemma ci_less_irrefl: "\<not> CaseInsensitiveLess a a"
  by (simp add: CaseInsensitiveLess_lexord lexord_irreflexive)

lemma ci_less_trans:
  "CaseInsensitiveLess a b \<Longrightarrow> CaseInsensitiveLess b c \<Longrightarrow> CaseInsensitiveLess a c"
  unfolding CaseInsensitiveLess_lexord
  by (rule lexord_trans) (auto simp: trans_def)

lemma equivalent_iff:
  "(\<not> CaseInsensitiveLess a b \<and> \<not> CaseInsensitiveLess b a) = (fold_case a = fold_case b)"
proof -
  have "(fold_case a, fold_case b) \<in> lexord {(x, y). x < y} \<or> fold_case a = fold_case b
      \<or> (fold_case b, fold_case a) \<in> lexord {(x, y). x < y}"
    by (rule lexord_linear) auto
  then show ?thesis
    using ci_less_irrefl [of a] ci_less_cong(2) [of a b a]
    by (auto simp: CaseInsensitiveLess_lexord)
qed

subsection \<open>Lookup and insertion in the sorted map\<close>

lemma find_node_cong:
  assumes "fold_case a = fold_case b"
  shows "find_node om a = find_node om b"
proof (induction om)
  case Nil show ?case by simp
next
  case (Cons e om)
  obtain k v where e: "e = (k, v)" by (cases e)
  show ?case
    using Cons ci_less_cong(1) [OF assms, of k] ci_less_cong(2) [OF assms, of k]
    by (simp add: e)
qed

lemma subscript_cong_found:
  "find_node om a \<noteq> None \<Longrightarrow> subscript om a = om"
  by (induction om) (auto split: if_splits)

lemma find_node_subscript: "find_node (subscript om a) a \<noteq> None"
  by (induction om) (auto simp: ci_less_irrefl)

lemma keys_update_node: "map fst (update_node om k f) = map fst om"
  by (induction om) auto

lemma length_update_node: "length (update_node om k f) = length om"
  by (induction om) auto

lemma find_node_keys:
  "map fst om = map fst om' \<Longrightarrow> (find_node om k = None) = (find_node om' k = None)"
proof (induction om arbitrary: om')
  case Nil then show ?case by simp
next
  case (Cons e om)
  then obtain e' r where o': "om' = e' # r" by (cases om') auto
  with Cons.prems have "fst e = fst e'" "map fst om = map fst r" by auto
  with Cons.IH [of r] o' show ?case by (cases e; cases e') auto
qed

lemma entries_subscript:
  "(x, y) \<in> set (subscript om k) \<Longrightarrow> x = k \<or> (\<exists>y'. (x, y') \<in> set om)"
  by (induction om) (auto split: if_splits)

lemma keys_subscript: "set (map fst (subscript om k)) \<subseteq> insert k (set (map fst om))"
proof
  fix x assume "x \<in> set (map fst (subscript om k))"
  then obtain y where "(x, y) \<in> set (subscript om k)" by auto
  from entries_subscript [OF this] show "x \<in> insert k (set (map fst om))" by force
qed

lemma sorted_subscript:
  "sorted_map om \<Longrightarrow> sorted_map (subscript om k)"
proof (induction om)
  case Nil then show ?case by (simp add: sorted_map_def)
next
  case (Cons e om)
  obtain k' v where e: "e = (k', v)" by (cases e)
  from Cons.prems have s: "sorted_map om" and h: "\<forall>x \<in> set (map fst om). CaseInsensitiveLess k' x"
    by (auto simp: sorted_map_def e)
  show ?case
  proof (cases "CaseInsensitiveLess k' k")
    case True
    have "\<forall>x \<in> set (map fst (subscript om k)). CaseInsensitiveLess k' x"
    proof
      fix x assume "x \<in> set (map fst (subscript om k))"
      then have "x \<in> insert k (set (map fst om))" using keys_subscript by blast
      then show "CaseInsensitiveLess k' x" using h True by blast
    qed
    with Cons.IH [OF s] True show ?thesis by (simp add: sorted_map_def e)
  next
    case False
    show ?thesis
    proof (cases "CaseInsensitiveLess k k'")
      case True
      with h have "\<forall>x \<in> set (map fst om). CaseInsensitiveLess k x"
        using ci_less_trans by blast
      with True False Cons.prems show ?thesis by (simp add: sorted_map_def e)
    next
      case False
      with \<open>\<not> CaseInsensitiveLess k' k\<close> Cons.prems show ?thesis by (simp add: e)
    qed
  qed
qed

lemma sorted_update_node: "sorted_map om \<Longrightarrow> sorted_map (update_node om k f)"
  by (simp add: sorted_map_def keys_update_node)

lemma sorted_insert_option: "sorted_map (fst s) \<Longrightarrow> sorted_map (fst (insert_option s n opt))"
  by (simp add: insert_option_def Let_def sorted_update_node sorted_subscript)

lemma find_node_sorted:
  "sorted_map om \<Longrightarrow> (k, v) \<in> set om \<Longrightarrow> find_node om k = Some (k, v)"
proof (induction om)
  case Nil then show ?case by simp
next
  case (Cons e om)
  obtain k' v' where e: "e = (k', v')" by (cases e)
  show ?case
  proof (cases "(k, v) = e")
    case True then show ?thesis by (auto simp: e ci_less_irrefl)
  next
    case False
    with Cons.prems have m: "(k, v) \<in> set om" by simp
    then have "k \<in> set (map fst om)" by force
    with Cons.prems(1) have "CaseInsensitiveLess k' k" by (auto simp: sorted_map_def e)
    moreover from Cons.prems(1) have "sorted_map om" by (simp add: sorted_map_def)
    ultimately show ?thesis using Cons.IH m by (simp add: e)
  qed
qed

subsection \<open>Names that differ only in letter case\<close>

lemma sorted_distinct_keys: "sorted_map om \<Longrightarrow> distinct (map (fold_case \<circ> fst) om)"
proof (induction om)
  case Nil show ?case by simp
next
  case (Cons e om)
  from Cons.prems have s: "sorted_map om"
    and h: "\<forall>x \<in> set (map fst om). CaseInsensitiveLess (fst e) x"
    by (auto simp: sorted_map_def)
  have "fold_case (fst e) \<notin> set (map (fold_case \<circ> fst) om)"
  proof
    assume "fold_case (fst e) \<in> set (map (fold_case \<circ> fst) om)"
    then obtain x where x: "x \<in> set (map fst om)" "fold_case (fst e) = fold_case x" by auto
    from h x(1) have "CaseInsensitiveLess (fst e) x" by blast
    with ci_less_cong(1) [OF x(2), of x] ci_less_irrefl [of x] show False by simp
  qed
  with Cons.IH [OF s] show ?case by simp
qed

lemma subscript_again:
  assumes "fold_case a = fold_case b"
  shows "subscript (subscript om a) b = subscript om a"
proof -
  have "find_node (subscript om a) b = find_node (subscript om a) a"
    using find_node_cong [OF assms] by simp
  then have "find_node (subscript om a) b \<noteq> None" using find_node_subscript by simp
  then show ?thesis by (rule subscript_cong_found)
qed

lemma keys_insert_again:
  assumes "fold_case a = fold_case b"
  shows "map fst (fst (insert_option (insert_option (om, c) a o1) b o2))
       = map fst (fst (insert_option (om, c) a o1))"
proof -
  let ?m = "fst (insert_option (om, c) a o1)"
  have k: "map fst ?m = map fst (subscript om a)"
    by (simp add: insert_option_def Let_def keys_update_node)
  have "find_node (subscript om a) b \<noteq> None"
    using find_node_cong [OF assms, of "subscript om a"] find_node_subscript [of om a] by simp
  then have "find_node ?m b \<noteq> None" using find_node_keys [OF k, of b] by simp
  then have "subscript ?m b = ?m" by (rule subscript_cong_found)
  then show ?thesis by (simp add: insert_option_def Let_def keys_update_node)
qed

text \<open>
  C5. Two names \<open>a\<close> and \<open>b\<close> that differ only in letter case denote the same
  entry of every registry: \<^verbatim>\<open>find\<close> and \<^verbatim>\<open>count\<close> give the same answer for both;
  after \<^verbatim>\<open>operator[]\<close> under \<open>a\<close> the entry exists, a lookup under \<open>b\<close> finds
  that very node and \<^verbatim>\<open>operator[]\<close> under \<open>b\<close> adds nothing; an insertion under
  \<open>b\<close> after one under \<open>a\<close> leaves the keys as they were; and a registry that is
  sorted stays sorted, with no two keys equal up to case.
\<close>

theorem case_insensitive_keys:
  assumes "fold_case a = fold_case b"
  shows "find_node om a = find_node om b
       \<and> count om a = count om b
       \<and> find_node (subscript om a) a \<noteq> None
       \<and> find_node (subscript om a) b = find_node (subscript om a) a
       \<and> subscript (subscript om a) b = subscript om a
       \<and> map fst (fst (insert_option (insert_option (om, c) a o1) b o2))
           = map fst (fst (insert_option (om, c) a o1))
       \<and> (sorted_map om \<longrightarrow>
            sorted_map (fst (insert_option (insert_option (om, c) a o1) b o2))
            \<and> distinct (map (fold_case \<circ> fst)
                 (fst (insert_option (insert_option (om, c) a o1) b o2))))"
proof -
  have 1: "find_node om a = find_node om b" using assms by (rule find_node_cong)
  have 2: "count om a = count om b" by (simp add: count_def 1)
  have 3: "find_node (subscript om a) a \<noteq> None" by (rule find_node_subscript)
  have 4: "find_node (subscript om a) b = find_node (subscript om a) a"
    using find_node_cong [OF assms] by simp
  have 5: "subscript (subscript om a) b = subscript om a"
    using assms by (rule subscript_again)
  have 6: "map fst (fst (insert_option (insert_option (om, c) a o1) b o2))
           = map fst (fst (insert_option (om, c) a o1))"
    using assms by (rule keys_insert_again)
  have 7: "sorted_map (fst (insert_option (insert_option (om, c) a o1) b o2))
        \<and> distinct (map (fold_case \<circ> fst)
                 (fst (insert_option (insert_option (om, c) a o1) b o2)))"
    if "sorted_map om"
  proof -
    have "sorted_map (fst (insert_option (om, c) a o1))"
      using that sorted_insert_option [of "(om, c)"] by simp
    then have "sorted_map (fst (insert_option (insert_option (om, c) a o1) b o2))"
      by (rule sorted_insert_option)
    then show ?thesis using sorted_distinct_keys by blast
  qed
  from 1 2 3 4 5 6 7 show ?thesis by blast
qed

theorem case_insensitive_keys_witness:
  "fold_case ''Hash'' = fold_case ''HASH''
   \<and> find_node [(''Hash'', Option_spin 16 1 131072 (Some on_hash_size)),
                 (''Threads'', Option_spin 4 1 512 (Some on_threads))] ''HASH''
     = Some (''Hash'', Option_spin 16 1 131072 (Some on_hash_size))
   \<and> map fst (fst (insert_option (insert_option ([], 0) ''Hash'' (Option_check True None))
                       ''HASH'' (Option_check False None))) = [''Hash'']"
proof -
  have e: "fold_case ''Hash'' = fold_case ''HASH''" by code_simp
  have s: "sorted_map []" by (simp add: sorted_map_def)
  have f: "find_node [(''Hash'', Option_spin 16 1 131072 (Some on_hash_size)),
                 (''Threads'', Option_spin 4 1 512 (Some on_threads))] ''Hash''
     = Some (''Hash'', Option_spin 16 1 131072 (Some on_hash_size))" by code_simp
  have k: "map fst (fst (insert_option ([], 0) ''Hash'' (Option_check True None))) = [''Hash'']"
    by code_simp
  note w = case_insensitive_keys [OF e]
  from w [of "[(''Hash'', Option_spin 16 1 131072 (Some on_hash_size)),
                 (''Threads'', Option_spin 4 1 512 (Some on_threads))]"]
    w [of "[]" 0 "Option_check True None" "Option_check False None"] e f k s
  show ?thesis by simp
qed

subsection \<open>Binary conditions\<close>

lemma fold_update_length: "length (fold (\<lambda>i b. b[i := f i]) js b) = length b"
  by (induction js arbitrary: b) auto

lemma fold_update_nth:
  "k < length b \<Longrightarrow> fold (\<lambda>i b. b[i := f i]) js b ! k = (if k \<in> set js then f k else b ! k)"
  by (induction js arbitrary: b) (auto simp: nth_list_update)

lemma fold_update_all:
  "fold (\<lambda>i b. b[i := f i]) [0..<length b] b = map f [0..<length b]"
  by (rule nth_equalityI) (simp_all add: fold_update_length fold_update_nth)

lemma set_loop_startup:
  "set_loop rand True js bc rng
     = Inr (bc\<lparr>binary := fold (\<lambda>i b. b[i := False]) js (binary bc)\<rparr>, rng)"
  by (induction js arbitrary: bc) (simp_all add: set_flag_def)

lemma set_flag_variance_1:
  assumes "variance bc = 1" and "i < length (values_v bc)"
  shows "set_flag rand False bc i rng = Inr (threshold bc < values_v bc ! i, snd (rand rng))"
  using assms by (simp add: set_flag_def split_beta)

lemma set_loop_variance_1:
  assumes "variance bc = 1" and "\<forall>i \<in> set js. i < length (values_v bc)"
  shows "set_loop rand False js bc rng
     = Inr (bc\<lparr>binary := fold (\<lambda>i b. b[i := threshold bc < values_v bc ! i]) js (binary bc)\<rparr>,
            ((\<lambda>s. snd (rand s)) ^^ length js) rng)"
  using assms
proof (induction js arbitrary: bc rng)
  case Nil show ?case by simp
next
  case (Cons i js)
  let ?bc = "bc\<lparr>binary := (binary bc)[i := threshold bc < values_v bc ! i]\<rparr>"
  have f: "set_flag rand False bc i rng = Inr (threshold bc < values_v bc ! i, snd (rand rng))"
    using Cons.prems by (simp add: set_flag_variance_1)
  have "set_loop rand False js ?bc (snd (rand rng))
     = Inr (?bc\<lparr>binary := fold (\<lambda>i b. b[i := threshold ?bc < values_v ?bc ! i]) js (binary ?bc)\<rparr>,
            ((\<lambda>s. snd (rand s)) ^^ length js) (snd (rand rng)))"
    using Cons.prems by (intro Cons.IH) simp_all
  moreover have "((\<lambda>s. snd (rand s)) ^^ length js) (snd (rand rng))
      = snd (rand (((\<lambda>s. snd (rand s)) ^^ length js) rng))"
    using funpow_swap1 [of "\<lambda>s. snd (rand s)" "length js" rng] by simp
  ultimately show ?case by (simp add: f)
qed

text \<open>
  C8. Whatever the input and the state of the generator, the first call of
  \<^verbatim>\<open>BoolConditions::set\<close> (with \<^verbatim>\<open>startup\<close> still set) draws no number, sets every
  flag to false and clears \<^verbatim>\<open>startup\<close>. A second call, when \<^verbatim>\<open>variance\<close> is 1 and
  \<^verbatim>\<open>values\<close> has an element for every flag, sets flag \<open>i\<close> to
  \<^verbatim>\<open>values[i] > threshold\<close>, whatever numbers the generator draws.
\<close>

theorem set_first_call_then_variance_1:
  "BoolConditions_set rand bc (rng, True) out
     = Inr (bc\<lparr>binary := replicate (length (binary bc)) False\<rparr>, (rng, False),
            out @ replicate (length (binary bc)) ''0'')
   \<and> (variance bc = 1 \<and> length (binary bc) \<le> length (values_v bc) \<longrightarrow>
        BoolConditions_set rand (bc\<lparr>binary := replicate (length (binary bc)) False\<rparr>)
            (rng, False) out'
          = Inr (bc\<lparr>binary := map (\<lambda>i. threshold bc < values_v bc ! i) [0..<length (binary bc)]\<rparr>,
                 (((\<lambda>s. snd (rand s)) ^^ length (binary bc)) rng, False),
                 out' @ map (\<lambda>i. if threshold bc < values_v bc ! i then ''1'' else ''0'')
                          [0..<length (binary bc)]))"
proof -
  have r: "map (\<lambda>i. False) [0..<n] = replicate n False" for n
    by (simp add: map_replicate_const)
  have 1: "BoolConditions_set rand bc (rng, True) out
     = Inr (bc\<lparr>binary := replicate (length (binary bc)) False\<rparr>, (rng, False),
            out @ replicate (length (binary bc)) ''0'')"
    by (simp add: BoolConditions_set_def set_loop_startup fold_update_all r)
  have 2: "BoolConditions_set rand (bc\<lparr>binary := replicate (length (binary bc)) False\<rparr>)
            (rng, False) out'
          = Inr (bc\<lparr>binary := map (\<lambda>i. threshold bc < values_v bc ! i) [0..<length (binary bc)]\<rparr>,
                 (((\<lambda>s. snd (rand s)) ^^ length (binary bc)) rng, False),
                 out' @ map (\<lambda>i. if threshold bc < values_v bc ! i then ''1'' else ''0'')
                          [0..<length (binary bc)])"
    if v: "variance bc = 1" and l: "length (binary bc) \<le> length (values_v bc)"
  proof -
    let ?bc = "bc\<lparr>binary := replicate (length (binary bc)) False\<rparr>"
    have "set_loop rand False [0..<length (binary ?bc)] ?bc rng
      = Inr (?bc\<lparr>binary := fold (\<lambda>i b. b[i := threshold ?bc < values_v ?bc ! i])
                         [0..<length (binary ?bc)] (binary ?bc)\<rparr>,
            ((\<lambda>s. snd (rand s)) ^^ length [0..<length (binary ?bc)]) rng)"
      using v l by (intro set_loop_variance_1) simp_all
    moreover have "fold (\<lambda>i b. b[i := threshold ?bc < values_v ?bc ! i])
                         [0..<length (binary ?bc)] (binary ?bc)
       = map (\<lambda>i. threshold bc < values_v bc ! i) [0..<length (binary bc)]"
      using fold_update_all [of "\<lambda>i. threshold bc < values_v bc ! i" "binary ?bc"] by simp
    ultimately show ?thesis
      by (simp add: BoolConditions_set_def comp_def)
  qed
  from 1 2 show ?thesis by blast
qed

theorem set_first_call_then_variance_1_witness:
  "BoolConditions_set (\<lambda>s :: 64 word. (ucast (s * 2685821657736338717), s + 1))
      \<lparr>binary = [True, False, True], values_v = [465, 600, 501], variance = 1, threshold = 500\<rparr>
      (12345, True) []
     = Inr (\<lparr>binary = [False, False, False], values_v = [465, 600, 501], variance = 1,
             threshold = 500\<rparr>, (12345, False), [''0'', ''0'', ''0''])
   \<and> BoolConditions_set (\<lambda>s :: 64 word. (ucast (s * 2685821657736338717), s + 1))
      \<lparr>binary = [False, False, False], values_v = [465, 600, 501], variance = 1, threshold = 500\<rparr>
      (12345, False) [''0'', ''0'', ''0'']
     = Inr (\<lparr>binary = [False, True, True], values_v = [465, 600, 501], variance = 1,
             threshold = 500\<rparr>, (12348, False), [''0'', ''0'', ''0'', ''0'', ''1'', ''1''])"
  using set_first_call_then_variance_1
    [of "\<lambda>s :: 64 word. (ucast (s * 2685821657736338717), s + 1)"
        "\<lparr>binary = [True, False, True], values_v = [465, 600, 501], variance = 1, threshold = 500\<rparr>"
        12345 "[]" "[''0'', ''0'', ''0'']"]
  by (simp add: upt_rec numeral_3_eq_3)

subsection \<open>The statement \<^verbatim>\<open>o[name] << opt\<close>\<close>

lemma ci_less_asym: "CaseInsensitiveLess a b \<Longrightarrow> \<not> CaseInsensitiveLess b a"
  using ci_less_trans [of a b a] ci_less_irrefl [of a] by blast

lemma find_node_update_same:
  "find_node (update_node om n f) n = map_option (\<lambda>(k, v). (k, f v)) (find_node om n)"
  by (induction om) auto

lemma find_node_subscript_same:
  "find_node (subscript om n) n
     = (case find_node om n of None \<Rightarrow> Some (n, Option_button None) | Some e \<Rightarrow> Some e)"
  by (induction om) (auto simp: ci_less_irrefl)

lemma find_node_update_other:
  assumes "fold_case m \<noteq> fold_case n"
  shows "find_node (update_node om n f) m = find_node om m"
proof (induction om)
  case Nil show ?case by simp
next
  case (Cons e om)
  obtain k v where e: "e = (k, v)" by (cases e)
  show ?case
  proof (cases "\<not> CaseInsensitiveLess k n \<and> \<not> CaseInsensitiveLess n k")
    case True
    then have kn: "fold_case k = fold_case n" by (simp add: equivalent_iff)
    with assms have "fold_case k \<noteq> fold_case m" by simp
    then have "CaseInsensitiveLess k m \<or> CaseInsensitiveLess m k"
      using equivalent_iff [of k m] by blast
    with True show ?thesis by (auto simp: e)
  next
    case False
    with Cons.IH show ?thesis by (auto simp: e)
  qed
qed

lemma find_node_subscript_other:
  assumes "fold_case m \<noteq> fold_case n"
  shows "find_node (subscript om n) m = find_node om m"
proof (induction om)
  case Nil
  have "CaseInsensitiveLess n m \<or> CaseInsensitiveLess m n"
    using assms equivalent_iff [of n m] by auto
  then show ?case by auto
next
  case (Cons e om)
  obtain k v where e: "e = (k, v)" by (cases e)
  show ?case
  proof (cases "CaseInsensitiveLess k n")
    case True
    with Cons.IH show ?thesis by (simp add: e)
  next
    case False
    show ?thesis
    proof (cases "CaseInsensitiveLess n k")
      case False
      with \<open>\<not> CaseInsensitiveLess k n\<close> show ?thesis by (simp add: e)
    next
      case True
      have d: "CaseInsensitiveLess n m \<or> CaseInsensitiveLess m n"
        using assms equivalent_iff [of n m] by auto
      show ?thesis
      proof (cases "CaseInsensitiveLess n m")
        case True
        with \<open>CaseInsensitiveLess n k\<close> \<open>\<not> CaseInsensitiveLess k n\<close> show ?thesis
          by (simp add: e)
      next
        case False
        with d have mn: "CaseInsensitiveLess m n" by simp
        have mk: "CaseInsensitiveLess m k"
          using mn \<open>CaseInsensitiveLess n k\<close> by (rule ci_less_trans)
        then have "\<not> CaseInsensitiveLess k m" by (rule ci_less_asym)
        with mk mn False \<open>CaseInsensitiveLess n k\<close> \<open>\<not> CaseInsensitiveLess k n\<close>
        show ?thesis by (simp add: e)
      qed
    qed
  qed
qed

lemma length_subscript:
  "length (subscript om n) = length om + (1 - count om n)"
  by (induction om) (auto simp: count_def split: option.splits if_splits)

lemma insert_option_find_same:
  "find_node (fst (insert_option (om, c) n opt)) n
     = Some (stored_key om n, opt\<lparr>idx := Some c\<rparr>)"
  by (simp add: insert_option_def Let_def find_node_update_same find_node_subscript_same
      Option_shl_def stored_key_def split: option.splits)

lemma insert_option_find_other:
  "fold_case m \<noteq> fold_case n
     \<Longrightarrow> find_node (fst (insert_option (om, c) n opt)) m = find_node om m"
  by (simp add: insert_option_def Let_def find_node_update_other find_node_subscript_other)

lemma insert_option_length:
  "length (fst (insert_option (om, c) n opt)) = length om + (1 - count om n)"
  by (simp add: insert_option_def Let_def length_update_node length_subscript)

lemma insert_option_counter: "snd (insert_option (om, c) n opt) = Suc c"
  by (simp add: insert_option_def Let_def Option_shl_def)

lemma subscript_after_insert:
  "subscript (fst (insert_option (om, c) n opt)) n = fst (insert_option (om, c) n opt)"
  by (rule subscript_cong_found) (simp add: insert_option_find_same)

subsection \<open>Options generated by the tuning framework\<close>

lemma make_option_nondegenerate:
  assumes "fst (r v) \<noteq> snd (r v)"
  shows "make_option n v r g =
     (let v' = (case TuneResults g n of None \<Rightarrow> v | Some x \<Rightarrow> x)
      in g\<lparr>Options := fst (insert_option (Options g, insert_order g) n
                            (Option_spin v' (fst (r v')) (snd (r v')) (Some on_tune))),
            insert_order := Suc (insert_order g),
            LastOption := Some (stored_key (Options g) n),
            cout := cout g @ [TuneLine n v' (fst (r v')) (snd (r v'))
                                (of_int (snd (r v') - fst (r v')) / 20) ''0.0020'']\<rparr>)"
  using assms
  by (simp add: make_option_def Let_def subscript_after_insert insert_option_counter
      insert_option_find_same)

text \<open>
  C6. \<^verbatim>\<open>init_option\<close> of an \<^verbatim>\<open>int\<close> or \<^verbatim>\<open>Value\<close> entry is \<^verbatim>\<open>make_option\<close>. When
  the range function gives a degenerate range for the value, nothing changes: no
  Option, no line. Otherwise one Option is created: the entry found under the name
  is the new spin Option (its value the recorded result, if there is one, else the
  value of the entry; its bounds the range of that value; its action
  \<^verbatim>\<open>on_tune\<close>; its index the next one), every other name finds what it found
  before, the registry has one entry more when the name was not registered, and
  exactly one line is printed.
\<close>

theorem make_option_none_or_one:
  "init_option (Entry_int n v r) g = make_option n v r g
   \<and> init_option (Entry_Value n v r) g = make_option n v r g
   \<and> (fst (r v) = snd (r v) \<longrightarrow> make_option n v r g = g)
   \<and> (fst (r v) \<noteq> snd (r v) \<longrightarrow>
        (let v' = (case TuneResults g n of None \<Rightarrow> v | Some x \<Rightarrow> x);
             g' = make_option n v r g
         in find_node (Options g') n
              = Some (stored_key (Options g) n,
                      (Option_spin v' (fst (r v')) (snd (r v')) (Some on_tune))
                        \<lparr>idx := Some (insert_order g)\<rparr>)
            \<and> (\<forall>m. fold_case m \<noteq> fold_case n
                  \<longrightarrow> find_node (Options g') m = find_node (Options g) m)
            \<and> length (Options g') = length (Options g) + (1 - count (Options g) n)
            \<and> cout g' = cout g @ [TuneLine n v' (fst (r v')) (snd (r v'))
                                     (of_int (snd (r v') - fst (r v')) / 20) ''0.0020'']))"
proof -
  have d: "make_option n v r g = g" if "fst (r v) = snd (r v)"
    using that by (simp add: make_option_def)
  have c: "let v' = (case TuneResults g n of None \<Rightarrow> v | Some x \<Rightarrow> x);
             g' = make_option n v r g
         in find_node (Options g') n
              = Some (stored_key (Options g) n,
                      (Option_spin v' (fst (r v')) (snd (r v')) (Some on_tune))
                        \<lparr>idx := Some (insert_order g)\<rparr>)
            \<and> (\<forall>m. fold_case m \<noteq> fold_case n
                  \<longrightarrow> find_node (Options g') m = find_node (Options g) m)
            \<and> length (Options g') = length (Options g) + (1 - count (Options g) n)
            \<and> cout g' = cout g @ [TuneLine n v' (fst (r v')) (snd (r v'))
                                     (of_int (snd (r v') - fst (r v')) / 20) ''0.0020'']"
    if "fst (r v) \<noteq> snd (r v)"
    by (simp add: make_option_nondegenerate [of r v n g, OF that] Let_def insert_option_find_same
        insert_option_find_other insert_option_length)
  from d c show ?thesis by simp
qed

theorem make_option_none_or_one_witness:
  "find_node (Options (init_option (Entry_int ''A'' 5 (\<lambda>v. (0, 2 * v)))
       \<lparr>Options = [], insert_order = 0, update_on_last = False, LastOption = None,
        TuneResults = Map.empty, cout = [], calls = []\<rparr>)) ''A''
     = Some (''A'', (Option_spin 5 0 10 (Some on_tune))\<lparr>idx := Some 0\<rparr>)
   \<and> cout (init_option (Entry_int ''A'' 5 (\<lambda>v. (0, 2 * v)))
       \<lparr>Options = [], insert_order = 0, update_on_last = False, LastOption = None,
        TuneResults = Map.empty, cout = [], calls = []\<rparr>)
     = [TuneLine ''A'' 5 0 10 (1 / 2) ''0.0020'']
   \<and> length (Options (init_option (Entry_int ''A'' 5 (\<lambda>v. (0, 2 * v)))
       \<lparr>Options = [], insert_order = 0, update_on_last = False, LastOption = None,
        TuneResults = Map.empty, cout = [], calls = []\<rparr>)) = 1
   \<and> init_option (Entry_int ''A'' 0 (\<lambda>v. (0, 2 * v)))
       \<lparr>Options = [], insert_order = 0, update_on_last = False, LastOption = None,
        TuneResults = Map.empty, cout = [], calls = []\<rparr>
     = \<lparr>Options = [], insert_order = 0, update_on_last = False, LastOption = None,
        TuneResults = Map.empty, cout = [], calls = []\<rparr>"
  using make_option_none_or_one [of "''A''" 5 "\<lambda>v. (0, 2 * v)"
      "\<lparr>Options = [], insert_order = 0, update_on_last = False, LastOption = None,
        TuneResults = Map.empty, cout = [], calls = []\<rparr>"]
    make_option_none_or_one [of "''A''" 0 "\<lambda>v. (0, 2 * v)"
      "\<lparr>Options = [], insert_order = 0, update_on_last = False, LastOption = None,
        TuneResults = Map.empty, cout = [], calls = []\<rparr>"]
  by (simp add: Let_def stored_key_def count_def)

lemma m_e_names_differ: "fold_case (''m'' @ name) \<noteq> fold_case (''e'' @ name)"
  by (simp add: fold_case_def tolower_def char_to_int_def)

lemma stored_key_insert_other:
  "fold_case m \<noteq> fold_case n
     \<Longrightarrow> stored_key (fst (insert_option (om, c) n opt)) m = stored_key om m"
  by (simp add: stored_key_def insert_option_find_other)

lemma count_insert_other:
  "fold_case m \<noteq> fold_case n
     \<Longrightarrow> count (fst (insert_option (om, c) n opt)) m = count om m"
  by (simp add: count_def insert_option_find_other)

lemma make_option_degenerate: "fst (r v) = snd (r v) \<Longrightarrow> make_option n v r g = g"
  by (simp add: make_option_def)

lemma make_option_other_name:
  assumes "fold_case m \<noteq> fold_case n"
  shows "find_node (Options (make_option n v r g)) m = find_node (Options g) m"
proof (cases "fst (r v) = snd (r v)")
  case True
  then show ?thesis by (simp add: make_option_degenerate)
next
  case False
  show ?thesis
    using assms
    by (simp add: make_option_nondegenerate [of r v n g, OF False] Let_def
        insert_option_find_other)
qed

text \<open>
  C7, as stated, fails in two ways. Each half of a score goes through
  \<^verbatim>\<open>make_option\<close>, which creates nothing for a degenerate range: with a range
  function that maps 0 to \<open>(0, 0)\<close>, the entry \<^verbatim>\<open>Foo\<close> of the score \<open>(10, 0)\<close>
  produces \<^verbatim>\<open>mFoo\<close> only. And nothing compares the value with the range computed
  for it: with the fixed range \<open>(0, 1000)\<close>, the entry \<^verbatim>\<open>Foo\<close> of the score
  \<open>(10, -4)\<close> produces \<^verbatim>\<open>eFoo\<close> with the value -4 and the bounds 0 and 1000.
\<close>

theorem score_entry_one_option_or_value_outside:
  "map fst (Options (init_option
       (Entry_Score ''Foo'' (10, 0) (\<lambda>v. if 0 < v then (0, 2 * v) else (2 * v, 0)))
       \<lparr>Options = [], insert_order = 0, update_on_last = False, LastOption = None,
        TuneResults = Map.empty, cout = [], calls = []\<rparr>)) = [''mFoo'']
   \<and> Options (init_option (Entry_Score ''Foo'' (10, - 4) (\<lambda>v. (0, 1000)))
       \<lparr>Options = [], insert_order = 0, update_on_last = False, LastOption = None,
        TuneResults = Map.empty, cout = [], calls = []\<rparr>)
     = [(''eFoo'', \<lparr>defaultValue = ''-4.000000'', currentValue = ''-4.000000'', type = ''spin'',
                   min_v = 0, max_v = 1000, idx = Some 1, on_change = Some on_tune\<rparr>),
        (''mFoo'', \<lparr>defaultValue = ''10.000000'', currentValue = ''10.000000'', type = ''spin'',
                   min_v = 0, max_v = 1000, idx = Some 0, on_change = Some on_tune\<rparr>)]"
  by code_simp

text \<open>
  C7, amended. \<^verbatim>\<open>init_option\<close> of the score entry \<open>name\<close> creates one Option for
  each half of the score whose range is not degenerate, under \<^verbatim>\<open>"m" + name\<close> for
  the midgame half and \<^verbatim>\<open>"e" + name\<close> for the endgame half, and none for a half
  whose range is degenerate: the name of that half finds what it found before.
  When both ranges are non-degenerate there are two: each is a spin Option with
  action \<^verbatim>\<open>on_tune\<close>, whose value is its half of the score (or the result recorded
  for its name) and whose bounds are the range of that value, with consecutive
  indices; every other name finds what it found before, the registry grows by one
  entry for each of the two names that was not registered, and two lines are
  printed. The value of such an Option lies within its bounds whenever the range
  function gives bounds that enclose the value it is given.
\<close>

theorem score_entry_options:
  "(fst (r (mg_value s)) = snd (r (mg_value s)) \<longrightarrow>
      init_option (Entry_Score name s r) g = make_option (''e'' @ name) (eg_value s) r g
      \<and> find_node (Options (init_option (Entry_Score name s r) g)) (''m'' @ name)
          = find_node (Options g) (''m'' @ name))
   \<and> (fst (r (eg_value s)) = snd (r (eg_value s)) \<longrightarrow>
      init_option (Entry_Score name s r) g = make_option (''m'' @ name) (mg_value s) r g
      \<and> find_node (Options (init_option (Entry_Score name s r) g)) (''e'' @ name)
          = find_node (Options g) (''e'' @ name))
   \<and> (fst (r (mg_value s)) \<noteq> snd (r (mg_value s))
        \<and> fst (r (eg_value s)) \<noteq> snd (r (eg_value s)) \<longrightarrow>
      (let g' = init_option (Entry_Score name s r) g;
           vm = (case TuneResults g (''m'' @ name) of None \<Rightarrow> mg_value s | Some x \<Rightarrow> x);
           ve = (case TuneResults g (''e'' @ name) of None \<Rightarrow> eg_value s | Some x \<Rightarrow> x);
           om = (Option_spin vm (fst (r vm)) (snd (r vm)) (Some on_tune))
                  \<lparr>idx := Some (insert_order g)\<rparr>;
           oe = (Option_spin ve (fst (r ve)) (snd (r ve)) (Some on_tune))
                  \<lparr>idx := Some (Suc (insert_order g))\<rparr>
       in find_node (Options g') (''m'' @ name) = Some (stored_key (Options g) (''m'' @ name), om)
          \<and> find_node (Options g') (''e'' @ name) = Some (stored_key (Options g) (''e'' @ name), oe)
          \<and> (\<forall>m. fold_case m \<noteq> fold_case (''m'' @ name)
                  \<and> fold_case m \<noteq> fold_case (''e'' @ name)
                \<longrightarrow> find_node (Options g') m = find_node (Options g) m)
          \<and> length (Options g')
              = length (Options g) + (1 - count (Options g) (''m'' @ name))
                  + (1 - count (Options g) (''e'' @ name))
          \<and> length (cout g') = length (cout g) + 2
          \<and> currentValue om = to_string vm \<and> currentValue oe = to_string ve
          \<and> (fst (r vm) \<le> vm \<and> vm \<le> snd (r vm) \<longrightarrow> min_v om \<le> vm \<and> vm \<le> max_v om)
          \<and> (fst (r ve) \<le> ve \<and> ve \<le> snd (r ve) \<longrightarrow> min_v oe \<le> ve \<and> ve \<le> max_v oe)))"
proof -
  note d = m_e_names_differ [of name]
  have e: "fold_case (''e'' @ name) \<noteq> fold_case (''m'' @ name)" using d by simp
  have i: "init_option (Entry_Score name s r) g
      = make_option (''e'' @ name) (eg_value s) r (make_option (''m'' @ name) (mg_value s) r g)"
    by simp
  have 1: "init_option (Entry_Score name s r) g = make_option (''e'' @ name) (eg_value s) r g
      \<and> find_node (Options (init_option (Entry_Score name s r) g)) (''m'' @ name)
          = find_node (Options g) (''m'' @ name)"
    if h: "fst (r (mg_value s)) = snd (r (mg_value s))"
    unfolding i make_option_degenerate [of r "mg_value s", OF h]
    using make_option_other_name [OF d] by simp
  have 2: "init_option (Entry_Score name s r) g = make_option (''m'' @ name) (mg_value s) r g
      \<and> find_node (Options (init_option (Entry_Score name s r) g)) (''e'' @ name)
          = find_node (Options g) (''e'' @ name)"
    if h: "fst (r (eg_value s)) = snd (r (eg_value s))"
    unfolding i make_option_degenerate [of r "eg_value s", OF h]
    using make_option_other_name [OF e] by simp
  have 3: "let g' = init_option (Entry_Score name s r) g;
           vm = (case TuneResults g (''m'' @ name) of None \<Rightarrow> mg_value s | Some x \<Rightarrow> x);
           ve = (case TuneResults g (''e'' @ name) of None \<Rightarrow> eg_value s | Some x \<Rightarrow> x);
           om = (Option_spin vm (fst (r vm)) (snd (r vm)) (Some on_tune))
                  \<lparr>idx := Some (insert_order g)\<rparr>;
           oe = (Option_spin ve (fst (r ve)) (snd (r ve)) (Some on_tune))
                  \<lparr>idx := Some (Suc (insert_order g))\<rparr>
       in find_node (Options g') (''m'' @ name) = Some (stored_key (Options g) (''m'' @ name), om)
          \<and> find_node (Options g') (''e'' @ name) = Some (stored_key (Options g) (''e'' @ name), oe)
          \<and> (\<forall>m. fold_case m \<noteq> fold_case (''m'' @ name)
                  \<and> fold_case m \<noteq> fold_case (''e'' @ name)
                \<longrightarrow> find_node (Options g') m = find_node (Options g) m)
          \<and> length (Options g')
              = length (Options g) + (1 - count (Options g) (''m'' @ name))
                  + (1 - count (Options g) (''e'' @ name))
          \<and> length (cout g') = length (cout g) + 2
          \<and> currentValue om = to_string vm \<and> currentValue oe = to_string ve
          \<and> (fst (r vm) \<le> vm \<and> vm \<le> snd (r vm) \<longrightarrow> min_v om \<le> vm \<and> vm \<le> max_v om)
          \<and> (fst (r ve) \<le> ve \<and> ve \<le> snd (r ve) \<longrightarrow> min_v oe \<le> ve \<and> ve \<le> max_v oe)"
    if a: "fst (r (mg_value s)) \<noteq> snd (r (mg_value s))"
      and b: "fst (r (eg_value s)) \<noteq> snd (r (eg_value s))"
    using e d
    by (simp add: make_option_nondegenerate [of r "mg_value s", OF a]
        make_option_nondegenerate [of r "eg_value s", OF b] Let_def
        insert_option_find_same insert_option_find_other insert_option_length
        stored_key_insert_other count_insert_other Option_spin_def del: append.simps)
  from 1 2 3 show ?thesis by blast
qed

theorem score_entry_options_witness:
  "map fst (Options (init_option
       (Entry_Score ''Foo'' (3, - 4) (\<lambda>v. if 0 < v then (0, 2 * v) else (2 * v, 0)))
       \<lparr>Options = [], insert_order = 0, update_on_last = False, LastOption = None,
        TuneResults = Map.empty, cout = [], calls = []\<rparr>)) = [''eFoo'', ''mFoo'']
   \<and> find_node (Options (init_option
       (Entry_Score ''Foo'' (3, - 4) (\<lambda>v. if 0 < v then (0, 2 * v) else (2 * v, 0)))
       \<lparr>Options = [], insert_order = 0, update_on_last = False, LastOption = None,
        TuneResults = Map.empty, cout = [], calls = []\<rparr>)) ''mFoo''
     = Some (''mFoo'', (Option_spin 3 0 6 (Some on_tune))\<lparr>idx := Some 0\<rparr>)
   \<and> find_node (Options (init_option
       (Entry_Score ''Foo'' (3, - 4) (\<lambda>v. if 0 < v then (0, 2 * v) else (2 * v, 0)))
       \<lparr>Options = [], insert_order = 0, update_on_last = False, LastOption = None,
        TuneResults = Map.empty, cout = [], calls = []\<rparr>)) ''eFoo''
     = Some (''eFoo'', (Option_spin (- 4) (- 8) 0 (Some on_tune))\<lparr>idx := Some 1\<rparr>)
   \<and> find_node (Options (init_option
       (Entry_Score ''Foo'' (10, 0) (\<lambda>v. if 0 < v then (0, 2 * v) else (2 * v, 0)))
       \<lparr>Options = [], insert_order = 0, update_on_last = False, LastOption = None,
        TuneResults = Map.empty, cout = [], calls = []\<rparr>)) ''eFoo'' = None"
proof -
  let ?r = "\<lambda>v :: int. if 0 < v then (0, 2 * v) else (2 * v, 0)"
  let ?g = "\<lparr>Options = [], insert_order = 0, update_on_last = False, LastOption = None,
        TuneResults = Map.empty, cout = [], calls = []\<rparr>"
  have k: "map fst (Options (init_option (Entry_Score ''Foo'' (3, - 4) ?r) ?g))
      = [''eFoo'', ''mFoo'']"
    by (simp add: make_option_def mg_value_def eg_value_def insert_option_def Let_def
        CaseInsensitiveLess_def tolower_def char_to_int_def ci_less_irrefl)
  have deg: "fst (?r (eg_value (10, 0))) = snd (?r (eg_value (10, 0)))"
    by (simp add: eg_value_def)
  from score_entry_options [of ?r "(10, 0)" "''Foo''" ?g, THEN conjunct2, THEN conjunct1,
      rule_format, OF deg]
  have "find_node (Options (init_option (Entry_Score ''Foo'' (10, 0) ?r) ?g)) (''e'' @ ''Foo'')
      = find_node (Options ?g) (''e'' @ ''Foo'')"
    by (rule conjunct2)
  then have n: "find_node (Options (init_option (Entry_Score ''Foo'' (10, 0) ?r) ?g)) ''eFoo''
      = None"
    by simp
  have two: "find_node (Options (init_option (Entry_Score ''Foo'' (3, - 4) ?r) ?g)) ''mFoo''
       = Some (''mFoo'', (Option_spin 3 0 6 (Some on_tune))\<lparr>idx := Some 0\<rparr>)
     \<and> find_node (Options (init_option (Entry_Score ''Foo'' (3, - 4) ?r) ?g)) ''eFoo''
       = Some (''eFoo'', (Option_spin (- 4) (- 8) 0 (Some on_tune))\<lparr>idx := Some 1\<rparr>)"
    using score_entry_options [of ?r "(3, - 4)" "''Foo''" ?g]
    by (simp add: Let_def stored_key_def mg_value_def eg_value_def)
  from k two n show ?thesis by (simp only: simp_thms)
qed

subsection \<open>Re-synchronisation after a change\<close>

lemma assign_at_found:
  assumes "find_node (Options g) name = Some (k, opt)"
  shows "assign_at name v g =
     (case Option_assign opt v of
        Inl e \<Rightarrow> Inl e
      | Inr (opt', fs) \<Rightarrow>
          Inr (foldl (invoke k)
                 (g\<lparr>Options := update_node (Options g) name (\<lambda>this. opt')\<rparr>) fs))"
proof -
  have "subscript (Options g) name = Options g"
    using assms by (intro subscript_cong_found) simp
  with assms show ?thesis by (simp add: assign_at_def)
qed

text \<open>
  C9, as stated, fails: with \<^verbatim>\<open>update_on_last\<close> set, \<^verbatim>\<open>on_tune\<close> calls
  \<^verbatim>\<open>Tune::read_options\<close> when the Option changed is the one \<^verbatim>\<open>LastOption\<close> points
  to, the Option generated last, wherever it stands in a batch of assignments. For
  the entries \<^verbatim>\<open>A\<close> and \<^verbatim>\<open>B\<close>, generated in this order, the batch that assigns to
  \<^verbatim>\<open>B\<close> and then to \<^verbatim>\<open>A\<close> re-synchronises on its first assignment and not on its
  last.
\<close>

theorem resync_on_earlier_option_of_batch:
  "(case assign_at ''B'' ''3''
          (init_option (Entry_int ''B'' 7 (\<lambda>v. (0, 2 * v)))
            (init_option (Entry_int ''A'' 5 (\<lambda>v. (0, 2 * v)))
              \<lparr>Options = [], insert_order = 0, update_on_last = True, LastOption = None,
               TuneResults = Map.empty, cout = [], calls = []\<rparr>)) of
      Inl e \<Rightarrow> False
    | Inr g2 \<Rightarrow>
        calls g2 = [read_options]
        \<and> (case assign_at ''A'' ''3'' g2 of
              Inl e \<Rightarrow> False
            | Inr g3 \<Rightarrow> calls g3 = [read_options]
                \<and> map (\<lambda>(k, opt). (k, currentValue opt)) (Options g3)
                    = [(''A'', ''3''), (''B'', ''3'')]))"
  by code_simp

text \<open>
  C9, amended. An accepted assignment to a registered Option whose action is
  \<^verbatim>\<open>on_tune\<close> calls \<^verbatim>\<open>Tune::read_options\<close> once when \<^verbatim>\<open>update_on_last\<close> is clear;
  when it is set, it calls it once if the Option is the one \<^verbatim>\<open>LastOption\<close> points
  to and not at all otherwise. \<^verbatim>\<open>LastOption\<close> points to the Option that
  \<^verbatim>\<open>make_option\<close> generated last.
\<close>

theorem on_tune_resynchronises:
  assumes "find_node (Options g) name = Some (k, opt)"
    and "Option_assign opt v = Inr (opt', [on_tune])"
  shows "(\<exists>g'. assign_at name v g = Inr g'
            \<and> calls g' = calls g @ (if \<not> update_on_last g \<or> LastOption g = Some k
                                     then [read_options] else [])
            \<and> update_on_last g' = update_on_last g \<and> LastOption g' = LastOption g
            \<and> find_node (Options g') name = Some (k, opt'))
       \<and> (fst (r x) \<noteq> snd (r x) \<longrightarrow>
            LastOption (make_option n x r g) = Some (stored_key (Options g) n)
            \<and> map_option fst (find_node (Options (make_option n x r g)) n)
                = Some (stored_key (Options g) n))"
proof -
  have 1: "assign_at name v g
     = Inr (on_tune_action k (g\<lparr>Options := update_node (Options g) name (\<lambda>this. opt')\<rparr>))"
    by (simp add: assign_at_found [OF assms(1)] assms(2) invoke_def)
  have 2: "find_node (update_node (Options g) name (\<lambda>this. opt')) name = Some (k, opt')"
    by (simp add: find_node_update_same assms(1))
  have 3: "LastOption (make_option n x r g) = Some (stored_key (Options g) n)
            \<and> map_option fst (find_node (Options (make_option n x r g)) n)
                = Some (stored_key (Options g) n)"
    if "fst (r x) \<noteq> snd (r x)"
    by (simp add: make_option_nondegenerate [of r x n g, OF that] Let_def
        insert_option_find_same)
  from 1 2 3 show ?thesis by (simp add: on_tune_action_def)
qed

theorem on_tune_resynchronises_witness:
  "(case assign_at ''a'' ''3''
          (init_option (Entry_int ''B'' 7 (\<lambda>v. (0, 2 * v)))
            (init_option (Entry_int ''A'' 5 (\<lambda>v. (0, 2 * v)))
              \<lparr>Options = [], insert_order = 0, update_on_last = False, LastOption = None,
               TuneResults = Map.empty, cout = [], calls = []\<rparr>)) of
      Inl e \<Rightarrow> False
    | Inr g' \<Rightarrow> calls g' = [read_options] \<and> LastOption g' = Some ''B'')"
proof -
  let ?g = "init_option (Entry_int ''B'' 7 (\<lambda>v. (0, 2 * v)))
            (init_option (Entry_int ''A'' 5 (\<lambda>v. (0, 2 * v)))
              \<lparr>Options = [], insert_order = 0, update_on_last = False, LastOption = None,
               TuneResults = Map.empty, cout = [], calls = []\<rparr>)"
  let ?o = "(Option_spin 5 0 10 (Some on_tune))\<lparr>idx := Some 0\<rparr>"
  have f: "find_node (Options ?g) ''a'' = Some (''A'', ?o)" by code_simp
  have a: "Option_assign ?o ''3'' = Inr (?o\<lparr>currentValue := ''3''\<rparr>, [on_tune])" by code_simp
  have c: "calls ?g = []" "update_on_last ?g = False" "LastOption ?g = Some ''B''"
    by code_simp+
  from on_tune_resynchronises [OF f a, THEN conjunct1] obtain g' where
    g': "assign_at ''a'' ''3'' ?g = Inr g'
            \<and> calls g' = calls ?g @ (if \<not> update_on_last ?g \<or> LastOption ?g = Some ''A''
                                     then [read_options] else [])
            \<and> update_on_last g' = update_on_last ?g \<and> LastOption g' = LastOption ?g
            \<and> find_node (Options g') ''a'' = Some (''A'', ?o\<lparr>currentValue := ''3''\<rparr>)"
    by blast
  from g' have "assign_at ''a'' ''3'' ?g = Inr g'" "calls g' = [read_options]"
    "LastOption g' = Some ''B''"
    by (simp_all only: c append_Nil not_False_eq_True simp_thms if_True)
  then show ?thesis by (simp only: sum.case simp_thms)
qed

subsection \<open>Printing an integer and reading it back\<close>

lemma digit_char_int:
  assumes "0 \<le> d" "d < 10"
  shows "(of_char (char_of (48 + d :: int)) :: int) = 48 + d"
  using assms by simp

lemma digit_char_nat:
  assumes "0 \<le> d" "d < 10"
  shows "(of_char (char_of (48 + d :: int)) :: nat) = nat (48 + d)"
proof -
  have "int (of_char (char_of (48 + d)) :: nat) = (of_char (char_of (48 + d)) :: int)"
    by (rule of_nat_of_char)
  with digit_char_int [OF assms] show ?thesis by linarith
qed

lemma isdigit_digit_char: "0 \<le> d \<Longrightarrow> d < 10 \<Longrightarrow> isdigit (char_of (48 + d :: int))"
  unfolding isdigit_def by (simp only: digit_char_nat) linarith

lemma digit_val_digit_char: "0 \<le> d \<Longrightarrow> d < 10 \<Longrightarrow> digit_val (char_of (48 + d :: int)) = d"
  by (simp add: digit_val_def digit_char_int Let_def)

lemma show_digits_facts:
  "0 \<le> n \<Longrightarrow> show_digits n \<noteq> [] \<and> (\<forall>c \<in> set (show_digits n). isdigit c)
      \<and> digits_val 10 (show_digits n) = n"
proof (induction n rule: show_digits.induct)
  case (1 n)
  show ?case
  proof (cases "n < 10")
    case True
    with 1(2) show ?thesis
      by (subst (1 2 3) show_digits.simps)
        (simp add: isdigit_digit_char digit_val_digit_char digits_val_def)
  next
    case False
    then have "0 \<le> n div 10" by simp
    with 1(1) False have ih: "show_digits (n div 10) \<noteq> []"
      "\<forall>c \<in> set (show_digits (n div 10)). isdigit c"
      "digits_val 10 (show_digits (n div 10)) = n div 10"
      by simp_all
    have m: "0 \<le> n mod 10" "n mod 10 < 10" by simp_all
    have s: "show_digits n = show_digits (n div 10) @ [char_of (48 + n mod 10)]"
      using False by (subst show_digits.simps) simp
    have "digits_val 10 (show_digits n) = 10 * (n div 10) + n mod 10"
      using ih(3) by (simp add: s digits_val_def digit_val_digit_char [OF m])
    then show ?thesis using ih(2) by (simp add: s isdigit_digit_char [OF m])
  qed
qed


lemma has_prefix_ci_nth:
  assumes "has_prefix_ci p s" and "i < length p"
  shows "tolower (char_to_int (s ! i)) = tolower (char_to_int (p ! i))"
proof -
  from assms(1) have l: "length p \<le> length s"
    and m: "map (tolower \<circ> char_to_int) (take (length p) s) = map (tolower \<circ> char_to_int) p"
    by (simp_all add: has_prefix_ci_def)
  from m have "map (tolower \<circ> char_to_int) (take (length p) s) ! i
      = map (tolower \<circ> char_to_int) p ! i" by simp
  with assms(2) l show ?thesis by simp
qed

lemma isdigit_key:
  assumes "isdigit c"
  shows "48 \<le> tolower (char_to_int c) \<and> tolower (char_to_int c) \<le> 57"
proof -
  have "(of_char c :: int) = int (of_char c :: nat)" by (rule of_nat_of_char [symmetric])
  with assms show ?thesis by (simp add: isdigit_def char_to_int_def tolower_def Let_def)
qed

lemma isdigit_not_space: "isdigit c \<Longrightarrow> \<not> isspace c"
  by (auto simp: isdigit_def isspace_def)

lemma isdigit_not_sign: "isdigit c \<Longrightarrow> c \<noteq> CHR ''-'' \<and> c \<noteq> CHR ''+'' \<and> c \<noteq> CHR ''.''"
  by (auto simp: isdigit_def)

lemma digits_val_zeros: "digits_val 10 (ds @ ''000000'') = digits_val 10 ds * 1000000"
  by (simp add: digits_val_def digit_val_def)

lemma unsigned_value_digits:
  assumes "ds \<noteq> []" and "\<forall>c \<in> set ds. isdigit c"
  shows "unsigned_value (ds @ ''.000000'') = Some (Finite (of_int (digits_val 10 ds)))"
proof -
  let ?t = "ds @ ''.000000''"
  from assms(1) obtain c r where ds: "ds = c # r" by (cases ds) auto
  with assms(2) have c: "isdigit c" by simp
  have t0: "?t ! 0 = c" by (simp add: ds)
  have k0: "48 \<le> tolower (char_to_int (?t ! 0)) \<and> tolower (char_to_int (?t ! 0)) \<le> 57"
    unfolding t0 using c by (rule isdigit_key)
  have inf: "\<not> has_prefix_ci ''inf'' ?t"
  proof
    assume "has_prefix_ci ''inf'' ?t"
    from has_prefix_ci_nth [OF this, of 0] k0 show False
      by (simp add: tolower_def char_to_int_def)
  qed
  have nan: "\<not> has_prefix_ci ''nan'' ?t"
  proof
    assume "has_prefix_ci ''nan'' ?t"
    from has_prefix_ci_nth [OF this, of 0] k0 show False
      by (simp add: tolower_def char_to_int_def)
  qed
  have all: "\<forall>x \<in> set ?t. tolower (char_to_int x) \<noteq> 120"
  proof
    fix x assume "x \<in> set ?t"
    then consider "x \<in> set ds" | "x = CHR ''.''" | "x = CHR ''0''" by auto
    then show "tolower (char_to_int x) \<noteq> 120"
    proof cases
      case 1
      with assms(2) have "isdigit x" by simp
      from isdigit_key [OF this] show ?thesis by simp
    next
      case 2 then show ?thesis by (simp add: tolower_def char_to_int_def)
    next
      case 3 then show ?thesis by (simp add: tolower_def char_to_int_def)
    qed
  qed
  have hex: "\<not> has_prefix_ci ''0x'' ?t"
  proof
    assume "has_prefix_ci ''0x'' ?t"
    from has_prefix_ci_nth [OF this, of 1]
    have "tolower (char_to_int (?t ! 1)) = 120" by (simp add: tolower_def char_to_int_def)
    moreover have "?t ! 1 \<in> set ?t" by (rule nth_mem) simp
    ultimately show False using all by blast
  qed
  have nd: "\<not> isdigit (CHR ''.'')" by (simp add: isdigit_def)
  have d0: "isdigit (CHR ''0'')" by (simp add: isdigit_def)
  have tw: "takeWhile isdigit ?t = ds"
    using assms(2) nd by (simp add: takeWhile_append2)
  have dw: "dropWhile isdigit ?t = ''.000000''"
    using assms(2) nd by (simp add: dropWhile_append2)
  have "decimal_value ?t = Some (of_int (digits_val 10 (ds @ ''000000'')) * pow10 (- 6))"
    using assms(1) by (simp add: decimal_value_def Let_def tw dw d0 exponent_part_def)
  also have "\<dots> = Some (of_int (digits_val 10 ds))"
    by (simp add: digits_val_zeros pow10_def)
  finally show ?thesis
    using inf nan hex by (simp add: unsigned_value_def)
qed

lemma subject_value_to_string: "subject_value (to_string v) = Some (Finite (of_int v))"
proof (cases "v < 0")
  case False
  then have f: "show_digits v \<noteq> []" "\<forall>c \<in> set (show_digits v). isdigit c"
    "digits_val 10 (show_digits v) = v"
    using show_digits_facts [of v] by simp_all
  from f(1) obtain c r where ds: "show_digits v = c # r" by (cases "show_digits v") auto
  with f(2) have c: "isdigit c" by simp
  have t: "to_string v = c # (r @ ''.000000'')"
    using False by (simp add: to_string_def show_int_def ds)
  have "subject_value (to_string v) = unsigned_value (show_digits v @ ''.000000'')"
    using isdigit_not_space [OF c] isdigit_not_sign [OF c]
    by (simp add: subject_value_def Let_def t ds)
  with unsigned_value_digits [OF f(1,2)] f(3) show ?thesis by simp
next
  case True
  then have f: "show_digits (- v) \<noteq> []" "\<forall>c \<in> set (show_digits (- v)). isdigit c"
    "digits_val 10 (show_digits (- v)) = - v"
    using show_digits_facts [of "- v"] by simp_all
  have t: "to_string v = CHR ''-'' # (show_digits (- v) @ ''.000000'')"
    using True by (simp add: to_string_def show_int_def)
  have "\<not> isspace (CHR ''-'')" by (simp add: isspace_def)
  then have "subject_value (to_string v)
      = map_option flt_neg (unsigned_value (show_digits (- v) @ ''.000000''))"
    by (simp add: subject_value_def Let_def t)
  with unsigned_value_digits [OF f(1,2)] f(3) show ?thesis by (simp add: flt_neg_def)
qed

lemma stof_to_string:
  assumes "\<bar>v\<bar> \<le> 2 ^ 24"
  shows "stof (to_string v) = Inr (Finite (of_int v))"
  using float_of_int_exact [OF assms]
  by (simp add: stof_def subject_value_to_string float_of_int_def)

lemma int_of_float_of_int:
  assumes "\<bar>v\<bar> \<le> 2 ^ 24"
  shows "int_of_float (Finite (of_int v)) = Inr v"
proof -
  have "- (2 ^ 31) \<le> v \<and> v < 2 ^ 31" using assms by simp linarith
  then show ?thesis by (simp add: int_of_float_def Let_def)
qed

subsection \<open>Insertion order\<close>

lemma insert_all_snoc:
  "insert_all (ins @ [(n, opt)]) = insert_option (insert_all ins) n opt"
  by (simp add: insert_all_def)

lemma find_node_in_set: "find_node om k = Some e \<Longrightarrow> e \<in> set om"
  by (induction om) (auto split: if_splits)

lemma find_node_key: "find_node om k = Some (k', v) \<Longrightarrow> fold_case k' = fold_case k"
proof (induction om)
  case Nil then show ?case by simp
next
  case (Cons e om)
  then show ?case
    using equivalent_iff [of "fst e" k] by (cases e) (auto split: if_splits)
qed

lemma insert_all_invariant:
  assumes "distinct (map (fold_case \<circ> fst) ins)"
  shows "snd (insert_all ins) = length ins
       \<and> length (fst (insert_all ins)) = length ins
       \<and> sorted_map (fst (insert_all ins))
       \<and> (\<forall>k<length ins. find_node (fst (insert_all ins)) (fst (ins ! k))
             = Some (fst (ins ! k), (snd (ins ! k))\<lparr>idx := Some k\<rparr>))
       \<and> (\<forall>m. (\<forall>k<length ins. fold_case m \<noteq> fold_case (fst (ins ! k)))
             \<longrightarrow> find_node (fst (insert_all ins)) m = None)"
  using assms
proof (induction ins rule: rev_induct)
  case Nil
  show ?case by (simp add: insert_all_def sorted_map_def)
next
  case (snoc x ins)
  obtain n opt where x: "x = (n, opt)" by (cases x)
  from snoc.prems have d: "distinct (map (fold_case \<circ> fst) ins)"
    and notin: "fold_case n \<notin> set (map (fold_case \<circ> fst) ins)"
    by (simp_all add: x comp_def)
  have fresh: "\<forall>k<length ins. fold_case n \<noteq> fold_case (fst (ins ! k))"
  proof (intro allI impI)
    fix k assume k: "k < length ins"
    then have "map (fold_case \<circ> fst) ins ! k \<in> set (map (fold_case \<circ> fst) ins)"
      by (intro nth_mem) simp
    with k have "fold_case (fst (ins ! k)) \<in> set (map (fold_case \<circ> fst) ins)"
      by simp
    with notin show "fold_case n \<noteq> fold_case (fst (ins ! k))" by metis
  qed
  note ih = snoc.IH [OF d]
  obtain om c where s: "insert_all ins = (om, c)" by (cases "insert_all ins")
  from ih s have c: "c = length ins" and l: "length om = length ins"
    and so: "sorted_map om"
    and f: "\<forall>k<length ins. find_node om (fst (ins ! k))
             = Some (fst (ins ! k), (snd (ins ! k))\<lparr>idx := Some k\<rparr>)"
    and g: "\<forall>m. (\<forall>k<length ins. fold_case m \<noteq> fold_case (fst (ins ! k)))
             \<longrightarrow> find_node om m = None"
    by simp_all
  from g fresh have none: "find_node om n = None" by blast
  have new: "insert_all (ins @ [x]) = insert_option (om, c) n opt"
    by (simp add: x insert_all_snoc s)
  have 1: "snd (insert_all (ins @ [x])) = length (ins @ [x])"
    by (simp add: new insert_option_counter c)
  have 2: "length (fst (insert_all (ins @ [x]))) = length (ins @ [x])"
    by (simp add: new insert_option_length count_def none l)
  have 3: "sorted_map (fst (insert_all (ins @ [x])))"
    using sorted_insert_option [of "(om, c)" n opt] so by (simp add: new)
  have 4: "find_node (fst (insert_all (ins @ [x]))) (fst ((ins @ [x]) ! k))
             = Some (fst ((ins @ [x]) ! k), (snd ((ins @ [x]) ! k))\<lparr>idx := Some k\<rparr>)"
    if "k < length (ins @ [x])" for k
  proof (cases "k < length ins")
    case True
    with fresh have "fold_case (fst (ins ! k)) \<noteq> fold_case n" by force
    with True f show ?thesis
      by (simp add: new insert_option_find_other nth_append)
  next
    case False
    with that have k: "k = length ins" by simp
    show ?thesis
      by (simp add: k new [unfolded x] x insert_option_find_same stored_key_def none c)
  qed
  have 5: "find_node (fst (insert_all (ins @ [x]))) m = None"
    if h: "\<forall>k<length (ins @ [x]). fold_case m \<noteq> fold_case (fst ((ins @ [x]) ! k))" for m
  proof -
    from h [rule_format, of "length ins"] have mn: "fold_case m \<noteq> fold_case n"
      by (simp add: x)
    have "\<forall>k<length ins. fold_case m \<noteq> fold_case (fst (ins ! k))"
    proof (intro allI impI)
      fix k assume "k < length ins"
      with h [rule_format, of k] show "fold_case m \<noteq> fold_case (fst (ins ! k))"
        by (simp add: nth_append)
    qed
    with g have "find_node om m = None" by blast
    with mn show ?thesis by (simp add: new insert_option_find_other)
  qed
  from 1 2 3 4 5 show ?case by blast
qed

lemma first_with_idx_unique:
  assumes "\<forall>e \<in> set om. idx (snd e) \<noteq> None"
    and "e0 \<in> set om" and "idx (snd e0) = Some j"
    and "\<forall>e \<in> set om. idx (snd e) = Some j \<longrightarrow> e = e0"
  shows "first_with_idx j om = Inr (Some e0)"
  using assms
proof (induction om)
  case Nil then show ?case by simp
next
  case (Cons e om)
  obtain k v where e: "e = (k, v)" by (cases e)
  have "idx v \<noteq> None" using Cons.prems(1) unfolding e by simp
  then obtain i where i: "idx v = Some i" by blast
  show ?case
  proof (cases "i = j")
    case True
    have "idx (snd (k, v)) = Some j \<longrightarrow> (k, v) = e0"
      using Cons.prems(4) unfolding e by simp
    with i True have "(k, v) = e0" by simp
    moreover have "first_with_idx j ((k, v) # om) = Inr (Some (k, v))"
      using i True by simp
    ultimately show ?thesis unfolding e by simp
  next
    case False
    have "e0 = (k, v) \<or> e0 \<in> set om" using Cons.prems(2) unfolding e by simp
    moreover have "e0 \<noteq> (k, v)"
    proof
      assume "e0 = (k, v)"
      with Cons.prems(3) i False show False by simp
    qed
    ultimately have m: "e0 \<in> set om" by blast
    have a: "\<forall>e \<in> set om. idx (snd e) \<noteq> None" using Cons.prems(1) by simp
    have u: "\<forall>e \<in> set om. idx (snd e) = Some j \<longrightarrow> e = e0" using Cons.prems(4) by simp
    have "first_with_idx j om = Inr (Some e0)"
      using a m Cons.prems(3) u by (rule Cons.IH)
    with False i show ?thesis unfolding e by simp
  qed
qed

lemma print_loop_entries:
  "\<forall>j \<in> set js. first_with_idx j om = Inr (Some (e j))
     \<Longrightarrow> print_loop js om os = print_entries os (map e js)"
proof (induction js arbitrary: os)
  case Nil show ?case by simp
next
  case (Cons j js)
  obtain k v where e: "e j = (k, v)" by (cases "e j")
  from Cons.prems have "first_with_idx j om = Inr (Some (k, v))" by (simp add: e)
  moreover from Cons have "print_loop js om os' = print_entries os' (map e js)" for os'
    by simp
  ultimately show ?case by (simp add: e split: sum.splits)
qed


lemma insert_all_print:
  assumes "distinct (map (fold_case \<circ> fst) ins)"
  shows "print_OptionsMap os (fst (insert_all ins))
           = print_entries os
               (map (\<lambda>k. (fst (ins ! k), (snd (ins ! k))\<lparr>idx := Some k\<rparr>)) [0..<length ins])"
proof -
  let ?om = "fst (insert_all ins)"
  let ?E = "\<lambda>k. (fst (ins ! k), (snd (ins ! k))\<lparr>idx := Some k\<rparr>)"
  note inv = insert_all_invariant [OF assms]
  from inv have len: "length ?om = length ins" by blast
  from inv have so: "sorted_map ?om" by blast
  from inv have f: "\<forall>k<length ins. find_node ?om (fst (ins ! k)) = Some (?E k)" by blast
  from inv have g: "\<forall>m. (\<forall>k<length ins. fold_case m \<noteq> fold_case (fst (ins ! k)))
             \<longrightarrow> find_node ?om m = None" by blast
  have a: "\<exists>k<length ins. e = ?E k" if e: "e \<in> set ?om" for e
  proof -
    obtain k0 v where kv: "e = (k0, v)" by (cases e)
    from find_node_sorted [OF so] e have fk: "find_node ?om k0 = Some (k0, v)"
      unfolding kv by blast
    have "\<not> (\<forall>k<length ins. fold_case k0 \<noteq> fold_case (fst (ins ! k)))"
    proof
      assume "\<forall>k<length ins. fold_case k0 \<noteq> fold_case (fst (ins ! k))"
      with g have "find_node ?om k0 = None" by blast
      with fk show False by simp
    qed
    then obtain k where k: "k < length ins" "fold_case k0 = fold_case (fst (ins ! k))"
      by blast
    from find_node_cong [OF k(2)] have "find_node ?om k0 = find_node ?om (fst (ins ! k))" .
    with f k(1) fk have "(k0, v) = ?E k" by simp
    with k(1) kv show ?thesis by blast
  qed
  have first: "first_with_idx j ?om = Inr (Some (?E j))" if j: "j < length ins" for j
  proof (rule first_with_idx_unique)
    show "\<forall>e \<in> set ?om. idx (snd e) \<noteq> None"
    proof
      fix e assume "e \<in> set ?om"
      from a [OF this] obtain k where "e = ?E k" by blast
      then show "idx (snd e) \<noteq> None" by simp
    qed
    show "?E j \<in> set ?om"
      using f j find_node_in_set by blast
    show "idx (snd (?E j)) = Some j" by simp
    show "\<forall>e \<in> set ?om. idx (snd e) = Some j \<longrightarrow> e = ?E j"
    proof (intro ballI impI)
      fix e assume "e \<in> set ?om" and i: "idx (snd e) = Some j"
      from a [OF this(1)] obtain k where "e = ?E k" by blast
      with i show "e = ?E j" by simp
    qed
  qed
  have "print_loop [0..<length ins] ?om os = print_entries os (map ?E [0..<length ins])"
    by (rule print_loop_entries) (simp add: first)
  then show ?thesis
    by (simp add: print_OptionsMap_def len)
qed

text \<open>
  C3, as stated, fails for a sequence that inserts twice under one name (up to
  case): the second insertion takes over the node and its index, the first index
  belongs to no entry any more, and the loop of \<^verbatim>\<open>operator<<\<close>, which looks for the
  indices below the size of the map, writes no line for the Option the registry
  holds.
\<close>

theorem reinsertion_loses_the_line:
  "fst (insert_all [(''Hash'', Option_check True None), (''HASH'', Option_check False None)])
     = [(''Hash'', (Option_check False None)\<lparr>idx := Some 1\<rparr>)]
   \<and> print_OptionsMap []
        (fst (insert_all [(''Hash'', Option_check True None),
                          (''HASH'', Option_check False None)])) = Inr []"
  by code_simp

text \<open>
  C3, amended. Every insertion gives the Option the current value of the counter
  and increments the counter, so the indices are assigned in strictly increasing
  order. For a sequence of insertions under names no two of which are equal up to
  case, made in a fresh process into an empty registry, the Option inserted at
  position \<open>k\<close> has the index \<open>k\<close>, whatever the alphabetic order of the names;
  the registry has one entry for each insertion; and printing the registry writes
  the descriptors of these Options, one for each, in the order of insertion.
\<close>

theorem insertion_order:
  assumes "distinct (map (fold_case \<circ> fst) ins)"
  shows "find_node (fst (insert_option (om, c) n opt)) n
           = Some (stored_key om n, opt\<lparr>idx := Some c\<rparr>)
       \<and> snd (insert_option (om, c) n opt) = Suc c
       \<and> snd (insert_all ins) = length ins
       \<and> length (fst (insert_all ins)) = length ins
       \<and> (\<forall>k<length ins. find_node (fst (insert_all ins)) (fst (ins ! k))
             = Some (fst (ins ! k), (snd (ins ! k))\<lparr>idx := Some k\<rparr>))
       \<and> print_OptionsMap os (fst (insert_all ins))
           = print_entries os
               (map (\<lambda>k. (fst (ins ! k), (snd (ins ! k))\<lparr>idx := Some k\<rparr>)) [0..<length ins])"
proof -
  note inv = insert_all_invariant [OF assms]
  from inv have cnt: "snd (insert_all ins) = length ins" by blast
  from inv have len: "length (fst (insert_all ins)) = length ins" by blast
  from inv have f: "\<forall>k<length ins. find_node (fst (insert_all ins)) (fst (ins ! k))
             = Some (fst (ins ! k), (snd (ins ! k))\<lparr>idx := Some k\<rparr>)" by blast
  from cnt len f insert_all_print [OF assms, of os] show ?thesis
    by (simp add: insert_option_find_same insert_option_counter)
qed

theorem insertion_order_witness:
  "print_OptionsMap []
     (fst (insert_all [(''Threads'', Option_spin 4 1 512 (Some on_threads)),
                       (''Hash'', Option_spin 16 1 131072 (Some on_hash_size)),
                       (''Clear Hash'', Option_button (Some on_clear_hash))]))
     = Inr ''\<newline>option name Threads type spin default 4 min 1 max 512\<newline>option name Hash type spin default 16 min 1 max 131072\<newline>option name Clear Hash type button''
   \<and> map fst (fst (insert_all [(''Threads'', Option_spin 4 1 512 (Some on_threads)),
                       (''Hash'', Option_spin 16 1 131072 (Some on_hash_size)),
                       (''Clear Hash'', Option_button (Some on_clear_hash))]))
     = [''Clear Hash'', ''Hash'', ''Threads'']"
proof -
  let ?ins = "[(''Threads'', Option_spin 4 1 512 (Some on_threads)),
               (''Hash'', Option_spin 16 1 131072 (Some on_hash_size)),
               (''Clear Hash'', Option_button (Some on_clear_hash))]"
  have d: "distinct (map (fold_case \<circ> fst) ?ins)" by code_simp
  have p: "print_entries []
       (map (\<lambda>k. (fst (?ins ! k), (snd (?ins ! k))\<lparr>idx := Some k\<rparr>)) [0..<length ?ins])
     = Inr ''\<newline>option name Threads type spin default 4 min 1 max 512\<newline>option name Hash type spin default 16 min 1 max 131072\<newline>option name Clear Hash type button''"
    by code_simp
  have k: "map fst (fst (insert_all ?ins)) = [''Clear Hash'', ''Hash'', ''Threads'']"
    by code_simp
  from insertion_order [OF d, of "[]" 0 "''x''" "Option_button None" "[]"]
  have "print_OptionsMap [] (fst (insert_all ?ins))
      =  print_entries []
       (map (\<lambda>k. (fst (?ins ! k), (snd (?ins ! k))\<lparr>idx := Some k\<rparr>)) [0..<length ?ins])"
    by blast
  with p k show ?thesis by (simp only: simp_thms)
qed

subsection \<open>The descriptor of an Option\<close>

lemma stof_to_string_any:
  "stof (to_string v)
     = (case float_of_int v of Finite q \<Rightarrow> Inr (Finite q) | x \<Rightarrow> Inl out_of_range)"
proof (cases "float_of_int v")
  case (Finite q)
  have "\<not> (\<bar>of_int v :: rat\<bar> < pow2 (- 126) \<and> q \<noteq> of_int v)"
  proof (cases "v = 0")
    case True
    with Finite show ?thesis
      by (simp add: float_of_int_def float_of_rat_def round_binary32_def Let_def
          split: if_splits)
  next
    case False
    then have "1 \<le> \<bar>v\<bar>" by simp
    then have "(1 :: rat) \<le> \<bar>of_int v\<bar>"
      by (metis of_int_1 of_int_abs of_int_le_iff)
    moreover have "pow2 (- 126) \<le> 1" by (simp add: pow2_def)
    ultimately show ?thesis by simp
  qed
  with Finite show ?thesis
    by (simp add: stof_def subject_value_to_string float_of_int_def)
qed (simp_all add: stof_def subject_value_to_string float_of_int_def)

lemma print_entry_spin_constructed:
  assumes "float_of_int v = Finite q" and "int_of_float (Finite q) = Inr d"
  shows "print_entry os name ((Option_spin v minv maxv f)\<lparr>currentValue := cur, idx := i\<rparr>)
        = Inr (os @ ''\<newline>option name '' @ name @ '' type spin''
                  @ '' default '' @ show_int d
                  @ '' min '' @ show_int minv @ '' max '' @ show_int maxv)"
  using assms by (simp add: print_entry_def Let_def Option_spin_def stof_to_string_any)

lemma print_entry_construct:
  assumes "default_fits r"
  shows "print_entry os name ((construct r)\<lparr>idx := i\<rparr>) = Inr (os @ descriptor name r)"
proof (cases r)
  case (reg_spin v minv maxv f)
  with assms have b: "\<bar>v\<bar> \<le> 2 ^ 24" by simp
  from print_entry_spin_constructed [OF float_of_int_exact [OF b] int_of_float_of_int [OF b],
      where os = os and name = name and minv = minv and maxv = maxv and f = f
        and cur = "to_string v" and i = i]
  show ?thesis by (simp add: reg_spin Option_spin_def)
qed (simp_all add: print_entry_def Let_def Option_string_def Option_check_def
    Option_button_def Option_combo_def)

lemma print_entries_map:
  "\<forall>x \<in> set xs. \<forall>os'. print_entry os' (fst (E x)) (snd (E x)) = Inr (os' @ L x)
     \<Longrightarrow> print_entries os (map E xs) = Inr (os @ concat (map L xs))"
proof (induction xs arbitrary: os)
  case Nil show ?case by simp
next
  case (Cons x xs)
  obtain k v where e: "E x = (k, v)" by (cases "E x")
  from Cons.prems have h: "print_entry os k v = Inr (os @ L x)"
    using e by (metis fst_conv list.set_intros(1) snd_conv)
  from Cons have "print_entries (os @ L x) (map E xs)
      = Inr ((os @ L x) @ concat (map L xs))" by simp
  with h show ?case by (simp add: e)
qed

lemma print_registrations:
  assumes "distinct (map (fold_case \<circ> fst) regs)"
    and "\<forall>e \<in> set regs. default_fits (snd e)"
  shows "print_OptionsMap os (fst (insert_all (map (\<lambda>e. (fst e, construct (snd e))) regs)))
       = Inr (os @ concat (map (\<lambda>e. descriptor (fst e) (snd e)) regs))"
proof -
  let ?ins = "map (\<lambda>e. (fst e, construct (snd e))) regs"
  let ?E = "\<lambda>k. (fst (?ins ! k), (snd (?ins ! k))\<lparr>idx := Some k\<rparr>)"
  let ?line = "\<lambda>k. descriptor (fst (regs ! k)) (snd (regs ! k))"
  have names: "map (fold_case \<circ> fst) ?ins = map (fold_case \<circ> fst) regs" by simp
  have d: "distinct (map (fold_case \<circ> fst) ?ins)" unfolding names by (rule assms(1))
  have p: "print_OptionsMap os (fst (insert_all ?ins))
      = print_entries os (map ?E [0..<length ?ins])"
    by (rule insert_all_print [OF d])
  have l: "\<forall>k \<in> set [0..<length regs]. \<forall>os'.
      print_entry os' (fst (?E k)) (snd (?E k)) = Inr (os' @ ?line k)"
  proof (intro ballI allI)
    fix k os' assume "k \<in> set [0..<length regs]"
    then have k: "k < length regs" by simp
    then have "default_fits (snd (regs ! k))" using assms(2) by simp
    from print_entry_construct [OF this] k
    show "print_entry os' (fst (?E k)) (snd (?E k)) = Inr (os' @ ?line k)" by simp
  qed
  have q: "print_entries os (map ?E [0..<length regs])
      = Inr (os @ concat (map ?line [0..<length regs]))"
    using l by (rule print_entries_map)
  have "map ?line [0..<length regs]
      = map (\<lambda>e. descriptor (fst e) (snd e)) (map (\<lambda>k. regs ! k) [0..<length regs])"
    by simp
  also have "\<dots> = map (\<lambda>e. descriptor (fst e) (snd e)) regs"
    by (simp only: map_nth)
  finally have m: "map ?line [0..<length regs] = map (\<lambda>e. descriptor (fst e) (snd e)) regs" .
  from p q m show ?thesis by simp
qed

text \<open>
  C4, as stated, fails for the default of a spin: the printer reads the default
  text back with \<^verbatim>\<open>stof\<close>, in single precision, and converts it to \<^verbatim>\<open>int\<close>. The
  line of a spin Option registered with the default -16777219 shows the default
  -16777220.
\<close>

theorem spin_default_printed_rounded:
  "defaultValue (construct (reg_spin (- 16777219) (- 20000000) 0 None)) = ''-16777219.000000''
   \<and> descriptor ''X'' (reg_spin (- 16777219) (- 20000000) 0 None)
     = ''\<newline>option name X type spin default -16777219 min -20000000 max 0''
   \<and> print_OptionsMap []
        (fst (insert_all [(''X'', construct (reg_spin (- 16777219) (- 20000000) 0 None))]))
     = Inr ''\<newline>option name X type spin default -16777220 min -20000000 max 0''"
  by code_simp

text \<open>
  C4, amended. The descriptor written for an entry is \<^verbatim>\<open>option name <Name> type
  <kind>\<close> (after a line break), followed for the kinds string, check and combo by
  \<^verbatim>\<open>default\<close> and the default text; for a spin by \<^verbatim>\<open>default\<close>, \<^verbatim>\<open>min\<close> and
  \<^verbatim>\<open>max\<close>, where the default shown is the default text read by \<^verbatim>\<open>stof\<close> and
  converted to \<^verbatim>\<open>int\<close>; and by nothing for a button. For a spin Option made by
  the constructor from the value \<open>v\<close>, whatever its current value and its index,
  the default shown is \<open>v\<close> converted to single precision and back to \<^verbatim>\<open>int\<close>,
  which is \<open>v\<close> itself when its magnitude is at most \<open>2 ^ 24\<close>. For registrations
  under names no two of which are equal up to case, made in a fresh process into
  an empty registry, with spin defaults of magnitude at most \<open>2 ^ 24\<close>, printing
  the registry writes exactly the descriptor lines of the registered Options, in
  the order of registration.
\<close>

theorem descriptor_format:
  "(type opt = ''string'' \<or> type opt = ''check'' \<or> type opt = ''combo'' \<longrightarrow>
      print_entry os name opt
        = Inr (os @ ''\<newline>option name '' @ name @ '' type '' @ type opt
                  @ '' default '' @ defaultValue opt))
   \<and> (type opt = ''button'' \<longrightarrow>
      print_entry os name opt = Inr (os @ ''\<newline>option name '' @ name @ '' type button''))
   \<and> (type opt = ''spin'' \<and> stof (defaultValue opt) = Inr x \<and> int_of_float x = Inr d \<longrightarrow>
      print_entry os name opt
        = Inr (os @ ''\<newline>option name '' @ name @ '' type spin''
                  @ '' default '' @ show_int d
                  @ '' min '' @ show_int (min_v opt) @ '' max '' @ show_int (max_v opt)))
   \<and> (float_of_int v = Finite q \<and> int_of_float (Finite q) = Inr d' \<longrightarrow>
      print_entry os name ((Option_spin v minv maxv f)\<lparr>currentValue := cur, idx := i\<rparr>)
        = Inr (os @ ''\<newline>option name '' @ name @ '' type spin''
                  @ '' default '' @ show_int d'
                  @ '' min '' @ show_int minv @ '' max '' @ show_int maxv))
   \<and> (\<bar>v\<bar> \<le> 2 ^ 24 \<longrightarrow>
      float_of_int v = Finite (of_int v) \<and> int_of_float (Finite (of_int v)) = Inr v)
   \<and> (distinct (map (fold_case \<circ> fst) regs) \<and> (\<forall>e \<in> set regs. default_fits (snd e)) \<longrightarrow>
      print_OptionsMap os (fst (insert_all (map (\<lambda>e. (fst e, construct (snd e))) regs)))
        = Inr (os @ concat (map (\<lambda>e. descriptor (fst e) (snd e)) regs)))"
proof -
  have 1: "print_entry os name opt
        = Inr (os @ ''\<newline>option name '' @ name @ '' type '' @ type opt
                  @ '' default '' @ defaultValue opt)"
    if "type opt = ''string'' \<or> type opt = ''check'' \<or> type opt = ''combo''"
    using that by (auto simp: print_entry_def Let_def)
  have 2: "print_entry os name opt = Inr (os @ ''\<newline>option name '' @ name @ '' type button'')"
    if "type opt = ''button''"
    using that by (simp add: print_entry_def Let_def)
  have 3: "print_entry os name opt
        = Inr (os @ ''\<newline>option name '' @ name @ '' type spin''
                  @ '' default '' @ show_int d
                  @ '' min '' @ show_int (min_v opt) @ '' max '' @ show_int (max_v opt))"
    if "type opt = ''spin''" "stof (defaultValue opt) = Inr x" "int_of_float x = Inr d"
    using that by (simp add: print_entry_def Let_def)
  have 4: "print_entry os name ((Option_spin v minv maxv f)\<lparr>currentValue := cur, idx := i\<rparr>)
        = Inr (os @ ''\<newline>option name '' @ name @ '' type spin''
                  @ '' default '' @ show_int d'
                  @ '' min '' @ show_int minv @ '' max '' @ show_int maxv)"
    if "float_of_int v = Finite q" "int_of_float (Finite q) = Inr d'"
    using that by (rule print_entry_spin_constructed)
  have 5: "float_of_int v = Finite (of_int v) \<and> int_of_float (Finite (of_int v)) = Inr v"
    if "\<bar>v\<bar> \<le> 2 ^ 24"
    using float_of_int_exact [OF that] int_of_float_of_int [OF that] by simp
  have 6: "print_OptionsMap os (fst (insert_all (map (\<lambda>e. (fst e, construct (snd e))) regs)))
        = Inr (os @ concat (map (\<lambda>e. descriptor (fst e) (snd e)) regs))"
    if "distinct (map (fold_case \<circ> fst) regs)" "\<forall>e \<in> set regs. default_fits (snd e)"
    using that by (rule print_registrations)
  from 1 2 3 4 5 6 show ?thesis by blast
qed

theorem descriptor_format_witness:
  "print_OptionsMap []
     (fst (insert_all [(''Contempt'', Option_spin 21 (- 100) 100 None),
                       (''Analysis_CT'',
                        Option_combo ''Both var Off var White var Black var Both'' ''Both'' None),
                       (''Clear Hash'', Option_button (Some on_clear_hash)),
                       (''Ponder'', Option_check False None),
                       (''SyzygyPath'', Option_string ''<empty>'' (Some on_tb_path))]))
     = Inr ''\<newline>option name Contempt type spin default 21 min -100 max 100\<newline>option name Analysis_CT type combo default Both var Off var White var Black var Both\<newline>option name Clear Hash type button\<newline>option name Ponder type check default false\<newline>option name SyzygyPath type string default <empty>''
   \<and> print_entry [] ''Contempt'' ((Option_spin 21 (- 100) 100 None)\<lparr>idx := Some 1\<rparr>)
     = Inr ''\<newline>option name Contempt type spin default 21 min -100 max 100''"
proof -
  let ?regs = "[(''Contempt'', reg_spin 21 (- 100) 100 None),
                (''Analysis_CT'',
                 reg_combo ''Both var Off var White var Black var Both'' ''Both'' None),
                (''Clear Hash'', reg_button (Some on_clear_hash)),
                (''Ponder'', reg_check False None),
                (''SyzygyPath'', reg_string ''<empty>'' (Some on_tb_path))]"
  have d: "distinct (map (fold_case \<circ> fst) ?regs)" by code_simp
  have f: "\<forall>e \<in> set ?regs. default_fits (snd e)" by simp
  have c: "concat (map (\<lambda>e. descriptor (fst e) (snd e)) ?regs)
     = ''\<newline>option name Contempt type spin default 21 min -100 max 100\<newline>option name Analysis_CT type combo default Both var Off var White var Black var Both\<newline>option name Clear Hash type button\<newline>option name Ponder type check default false\<newline>option name SyzygyPath type string default <empty>''"
    by code_simp
  have s: "show_int 21 = ''21''" "show_int (- 100) = ''-100''" "show_int 100 = ''100''"
    by code_simp+
  have fl: "float_of_int 21 = Finite 21" "int_of_float (Finite 21) = Inr 21" by code_simp+
  note w = descriptor_format [where os = "[]" and regs = ?regs and name = "''Contempt''"
      and v = 21 and q = 21 and d' = 21 and minv = "- 100" and maxv = 100 and f = None
      and cur = "to_string 21" and i = "Some 1"]
  have a: "print_OptionsMap [] (fst (insert_all (map (\<lambda>e. (fst e, construct (snd e))) ?regs)))
      = Inr ([] @ concat (map (\<lambda>e. descriptor (fst e) (snd e)) ?regs))"
    using w d f by blast
  have b: "print_entry [] ''Contempt'' ((Option_spin 21 (- 100) 100 None)\<lparr>idx := Some 1\<rparr>)
     = Inr ''\<newline>option name Contempt type spin default 21 min -100 max 100''"
    using w fl by (simp add: s Option_spin_def)
  from a c b show ?thesis by simp
qed

end
